theory Spec2Isabelle
  imports Complex_Main
begin

section \<open>JavaScript numbers\<close>

text \<open>
  The two managers compute with JavaScript numbers.  A number is modelled as a real,
  extended by the three special values that division can produce: the two infinities
  and not-a-number.  Rounding of doubles is abstracted (finite results are exact reals);
  comparison, addition and division follow IEEE 754 on the special values.  The zero
  divisors that occur in the source (a length, a difference of two time stamps) are
  positive zeros, so a finite non-zero numerator divided by zero takes the sign of
  the numerator.
\<close>

datatype jsnum = Num real | PosInf | NegInf | NaN

fun js_lt :: "jsnum \<Rightarrow> jsnum \<Rightarrow> bool" where
  "js_lt (Num a) (Num b) = (a < b)"
| "js_lt (Num a) PosInf = True"
| "js_lt NegInf (Num b) = True"
| "js_lt NegInf PosInf = True"
| "js_lt _ _ = False"

definition js_gt :: "jsnum \<Rightarrow> jsnum \<Rightarrow> bool" where
  "js_gt a b = js_lt b a"

fun js_ge :: "jsnum \<Rightarrow> jsnum \<Rightarrow> bool" where
  "js_ge (Num a) (Num b) = (a \<ge> b)"
| "js_ge PosInf (Num b) = True"
| "js_ge PosInf PosInf = True"
| "js_ge PosInf NegInf = True"
| "js_ge (Num a) NegInf = True"
| "js_ge NegInf NegInf = True"
| "js_ge _ _ = False"

fun js_add :: "jsnum \<Rightarrow> jsnum \<Rightarrow> jsnum" where
  "js_add (Num a) (Num b) = Num (a + b)"
| "js_add NaN _ = NaN"
| "js_add _ NaN = NaN"
| "js_add PosInf NegInf = NaN"
| "js_add NegInf PosInf = NaN"
| "js_add PosInf _ = PosInf"
| "js_add _ PosInf = PosInf"
| "js_add NegInf _ = NegInf"
| "js_add _ NegInf = NegInf"

fun js_div :: "jsnum \<Rightarrow> jsnum \<Rightarrow> jsnum" where
  "js_div (Num a) (Num b) =
     (if b \<noteq> 0 then Num (a / b)
      else if a = 0 then NaN
      else if a > 0 then PosInf else NegInf)"
| "js_div NaN _ = NaN"
| "js_div _ NaN = NaN"
| "js_div (Num a) PosInf = Num 0"
| "js_div (Num a) NegInf = Num 0"
| "js_div PosInf (Num b) = (if b \<ge> 0 then PosInf else NegInf)"
| "js_div NegInf (Num b) = (if b \<ge> 0 then NegInf else PosInf)"
| "js_div _ _ = NaN"

text \<open>\<open>Math.round\<close>: the nearest integer, a half rounded up; special values are kept.\<close>

fun js_round :: "jsnum \<Rightarrow> jsnum" where
  "js_round (Num a) = Num (of_int \<lfloor>a + 1 / 2\<rfloor>)"
| "js_round x = x"


section \<open>Containers and callbacks\<close>

text \<open>
  A JavaScript \<open>Map\<close> is an association list in insertion order: \<open>set\<close> on a key that
  is present replaces its value in place, on a new key appends the entry.  A JavaScript
  \<open>Set\<close> is a list in insertion order: \<open>add\<close> of a member changes nothing, \<open>delete\<close>
  removes the member.
\<close>

fun map_set :: "'k \<Rightarrow> 'v \<Rightarrow> ('k \<times> 'v) list \<Rightarrow> ('k \<times> 'v) list" where
  "map_set k v [] = [(k, v)]"
| "map_set k v ((k', v') # m) = (if k' = k then (k, v) # m else (k', v') # map_set k v m)"

definition map_get :: "('k \<times> 'v) list \<Rightarrow> 'k \<Rightarrow> 'v option" where
  "map_get m k = map_of m k"

definition map_delete :: "'k \<Rightarrow> ('k \<times> 'v) list \<Rightarrow> ('k \<times> 'v) list" where
  "map_delete k m = filter (\<lambda>e. fst e \<noteq> k) m"

definition set_add :: "'a \<Rightarrow> 'a list \<Rightarrow> 'a list" where
  "set_add x xs = (if x \<in> set xs then xs else xs @ [x])"

definition set_delete :: "'a \<Rightarrow> 'a list \<Rightarrow> 'a list" where
  "set_delete x xs = removeAll x xs"

text \<open>
  A callback is a function object; the sets compare callbacks by reference, which the
  model renders as a number.  What a callback does when it is called with a payload is
  given by the environment: it returns or it throws, possibly depending on the calls
  made so far.  Callbacks do not call back into the manager that invokes them.  The
  observable effects of a dispatch are the calls made (event kind, callback, payload)
  and the lines written by \<open>console.warn\<close>.
\<close>

type_synonym callback = nat

datatype outcome = Returns | Throws string

type_synonym 'd behaviour = "callback \<Rightarrow> (string \<times> callback \<times> 'd) list \<Rightarrow> 'd \<Rightarrow> outcome"

record 'd effects =
  invoked :: "(string \<times> callback \<times> 'd) list"
  warned :: "(string \<times> string) list"

text \<open>\<open>callback(data)\<close>: the call is made, and it returns or throws.\<close>

definition call :: "'d behaviour \<Rightarrow> string \<Rightarrow> callback \<Rightarrow> 'd \<Rightarrow> 'd effects \<Rightarrow> 'd effects \<times> outcome" where
  "call beh event cb d w = (w\<lparr>invoked := invoked w @ [(event, cb, d)]\<rparr>, beh cb (invoked w) d)"

text \<open>
  \<open>try { callback(data); } catch (error) { console.warn(..., error); }\<close>: a throw is
  caught and logged under the event kind.
\<close>

definition try_call :: "'d behaviour \<Rightarrow> string \<Rightarrow> 'd \<Rightarrow> callback \<Rightarrow> 'd effects \<Rightarrow> 'd effects" where
  "try_call beh event d cb w =
     (case call beh event cb d w of
        (w', Returns) \<Rightarrow> w'
      | (w', Throws err) \<Rightarrow> w'\<lparr>warned := warned w' @ [(event, err)]\<rparr>)"

text \<open>\<open>callbacks.forEach(callback => { try ... catch ... })\<close>, in insertion order.\<close>

definition forEach_try :: "'d behaviour \<Rightarrow> string \<Rightarrow> 'd \<Rightarrow> callback list \<Rightarrow> 'd effects \<Rightarrow> 'd effects" where
  "forEach_try beh event d cbs w = fold (try_call beh event d) cbs w"


section \<open>The shared performance manager\<close>

record deviceInfo =
  hardwareConcurrency :: nat
  deviceMemory :: real
  connection :: string
  score :: nat

record qualitySettings =
  css :: "(string \<times> string) list"
  maxParticles :: nat
  particleCount :: nat
  shouldSkipFrames :: bool
  renderQuality :: real

record perfData =
  fps :: jsnum
  quality :: string
  settings :: qualitySettings

text \<open>
  The storage collaborator: the settings kept under their full keys, and whether the
  local store accepts a write (a failed write is caught inside \<open>save\<close>).
\<close>

record sharedStorage =
  items :: "(string \<times> string) list"
  writable :: bool

definition save :: "string \<Rightarrow> string \<Rightarrow> sharedStorage \<Rightarrow> sharedStorage" where
  "save k v st =
     (if writable st then st\<lparr>items := map_set (''gamehub_'' @ ''common'' @ ''_'' @ k) v (items st)\<rparr>
      else st)"

definition load :: "string \<Rightarrow> string \<Rightarrow> sharedStorage \<Rightarrow> string" where
  "load k defaultValue st =
     (case map_get (items st) (''gamehub_'' @ ''common'' @ ''_'' @ k) of
        None \<Rightarrow> defaultValue
      | Some v \<Rightarrow> v)"

text \<open>
  The manager's fields, followed by the parts of the environment it writes: the style
  properties of the document root, the storage collaborator (\<open>None\<close> when the global
  is undefined), the callback effects, and the number of animation frames requested.
\<close>

record performanceManager =
  targetFPS :: real
  currentFPS :: jsnum
  fpsHistory :: "jsnum list"
  maxHistoryLength :: nat
  qualityLevel :: string
  lastFrameTime :: real
  frameCount :: nat
  adaptiveQuality :: bool
  monitoringEnabled :: bool
  callbacks :: "callback list"
  deviceInfo :: "deviceInfo option"
  rootStyle :: "(string \<times> string) list"
  storage :: "sharedStorage option"
  perfEffects :: "perfData effects"
  frameRequests :: nat

text \<open>
  \<open>detectDevicePerformance\<close>, from the navigator's values (\<open>None\<close> when a value is
  undefined; \<open>x || d\<close> also replaces a zero).
\<close>

definition detectDevicePerformance ::
    "nat option \<Rightarrow> real option \<Rightarrow> string option \<Rightarrow> performanceManager \<Rightarrow> performanceManager" where
  "detectDevicePerformance hc dm conn s =
     (let hardwareConcurrency = (case hc of None \<Rightarrow> 2 | Some n \<Rightarrow> if n = 0 then 2 else n);
          deviceMemory = (case dm of None \<Rightarrow> 4 | Some m \<Rightarrow> if m = 0 then 4 else m);
          connection = (case conn of None \<Rightarrow> ''4g'' | Some c \<Rightarrow> c);
          cpu = (if hardwareConcurrency \<ge> 8 then 4
                 else if hardwareConcurrency \<ge> 4 then 3
                 else if hardwareConcurrency \<ge> 2 then 2 else 1);
          mem = (if deviceMemory \<ge> 8 then 3
                 else if deviceMemory \<ge> 4 then 2
                 else if deviceMemory \<ge> 2 then 1 else 0);
          net = (if connection = ''4g'' then 2 else if connection = ''3g'' then 1 else 0);
          deviceScore = (cpu + mem + net :: nat)
      in s\<lparr>qualityLevel :=
             (if deviceScore \<ge> 7 then ''high'' else if deviceScore \<ge> 4 then ''medium'' else ''low''),
           deviceInfo := Some \<lparr>hardwareConcurrency = hardwareConcurrency,
             deviceMemory = deviceMemory, connection = connection, score = deviceScore\<rparr>\<rparr>)"

definition loadSettings :: "performanceManager \<Rightarrow> performanceManager" where
  "loadSettings s =
     (case storage s of
        None \<Rightarrow> s
      | Some st \<Rightarrow>
          (let userQuality = load ''qualityLevel'' ''auto'' st in
           if userQuality \<noteq> ''auto'' then s\<lparr>qualityLevel := userQuality, adaptiveQuality := False\<rparr>
           else s))"

text \<open>
  The constructor, given the time of construction, the navigator's values and the
  storage collaborator.
\<close>

definition constructor ::
    "real \<Rightarrow> nat option \<Rightarrow> real option \<Rightarrow> string option \<Rightarrow> sharedStorage option \<Rightarrow> performanceManager" where
  "constructor now hc dm conn st =
     loadSettings (detectDevicePerformance hc dm conn
       \<lparr>targetFPS = 60, currentFPS = Num 60, fpsHistory = [], maxHistoryLength = 60,
        qualityLevel = ''auto'', lastFrameTime = now, frameCount = 0,
        adaptiveQuality = True, monitoringEnabled = False, callbacks = [],
        deviceInfo = None, rootStyle = [], storage = st,
        perfEffects = \<lparr>invoked = [], warned = []\<rparr>, frameRequests = 0\<rparr>)"

text \<open>
  \<open>getQualitySettings\<close>: the table keyed by tier, with the medium entry for any other
  level (a level that names a property every object inherits is not considered).
\<close>

definition getQualitySettings :: "performanceManager \<Rightarrow> qualitySettings" where
  "getQualitySettings s =
     (if qualityLevel s = ''high'' then
        \<lparr>css = [(''--animation-duration'', ''0.15s''), (''--particle-count'', ''100''),
                (''--shadow-blur'', ''15px''), (''--transition-duration'', ''0.3s'')],
         maxParticles = 100, particleCount = 20, shouldSkipFrames = False, renderQuality = 1\<rparr>
      else if qualityLevel s = ''low'' then
        \<lparr>css = [(''--animation-duration'', ''0.05s''), (''--particle-count'', ''25''),
                (''--shadow-blur'', ''5px''), (''--transition-duration'', ''0.1s'')],
         maxParticles = 25, particleCount = 5, shouldSkipFrames = True, renderQuality = 6 / 10\<rparr>
      else
        \<lparr>css = [(''--animation-duration'', ''0.1s''), (''--particle-count'', ''50''),
                (''--shadow-blur'', ''10px''), (''--transition-duration'', ''0.2s'')],
         maxParticles = 50, particleCount = 10, shouldSkipFrames = False, renderQuality = 8 / 10\<rparr>)"

definition notifyCallbacks :: "perfData behaviour \<Rightarrow> performanceManager \<Rightarrow> performanceManager" where
  "notifyCallbacks beh s =
     (let data = \<lparr>fps = currentFPS s, quality = qualityLevel s, settings = getQualitySettings s\<rparr>
      in s\<lparr>perfEffects := forEach_try beh ''performance-change'' data (callbacks s) (perfEffects s)\<rparr>)"

definition applyQualitySettings :: "perfData behaviour \<Rightarrow> performanceManager \<Rightarrow> performanceManager" where
  "applyQualitySettings beh s =
     (let settings = getQualitySettings s;
          s1 = s\<lparr>rootStyle := fold (\<lambda>(k, v). map_set k v) (css settings) (rootStyle s)\<rparr>
      in notifyCallbacks beh s1)"

definition saveSettings :: "performanceManager \<Rightarrow> performanceManager" where
  "saveSettings s =
     (case storage s of
        None \<Rightarrow> s
      | Some st \<Rightarrow> s\<lparr>storage := Some (save ''qualityLevel'' (qualityLevel s) st)\<rparr>)"

definition adjustQuality :: "perfData behaviour \<Rightarrow> performanceManager \<Rightarrow> performanceManager" where
  "adjustQuality beh s =
     (let avgFPS = currentFPS s;
          oldQuality = qualityLevel s;
          s1 = (if js_lt avgFPS (Num 45) \<and> qualityLevel s \<noteq> ''low'' then
                  s\<lparr>qualityLevel := (if qualityLevel s = ''high'' then ''medium'' else ''low'')\<rparr>
                else if js_gt avgFPS (Num 55) \<and> qualityLevel s \<noteq> ''high'' then
                  s\<lparr>qualityLevel := (if qualityLevel s = ''low'' then ''medium'' else ''high'')\<rparr>
                else s)
      in if oldQuality \<noteq> qualityLevel s1 then saveSettings (applyQualitySettings beh s1) else s1)"

text \<open>The mean that \<open>monitor\<close> and \<open>getPerformanceStats\<close> compute: sum from 0, over the length.\<close>

definition average :: "jsnum list \<Rightarrow> jsnum" where
  "average h = js_div (foldl js_add (Num 0) h) (Num (real (length h)))"

text \<open>
  One run of \<open>monitor\<close> at time \<open>now\<close> (the value of \<open>performance.now()\<close>); the request
  for the next animation frame is counted.
\<close>

definition monitor :: "perfData behaviour \<Rightarrow> real \<Rightarrow> performanceManager \<Rightarrow> performanceManager" where
  "monitor beh now s =
     (if \<not> monitoringEnabled s then s
      else
        (let currentTime = now;
             deltaTime = currentTime - lastFrameTime s;
             sample = js_div (Num 1000) (Num deltaTime);
             pushed = fpsHistory s @ [sample];
             history = (if length pushed > maxHistoryLength s then tl pushed else pushed);
             s1 = s\<lparr>fpsHistory := history, currentFPS := average history,
                    lastFrameTime := currentTime, frameCount := frameCount s + 1\<rparr>;
             s2 = (if frameCount s1 mod 60 = 0 \<and> adaptiveQuality s1
                   then notifyCallbacks beh (adjustQuality beh s1) else s1)
         in s2\<lparr>frameRequests := frameRequests s2 + 1\<rparr>))"

definition startMonitoring :: "perfData behaviour \<Rightarrow> real \<Rightarrow> performanceManager \<Rightarrow> performanceManager" where
  "startMonitoring beh now s =
     (if monitoringEnabled s then s else monitor beh now (s\<lparr>monitoringEnabled := True\<rparr>))"

definition stopMonitoring :: "performanceManager \<Rightarrow> performanceManager" where
  "stopMonitoring s = s\<lparr>monitoringEnabled := False\<rparr>"

definition getCurrentFPS :: "performanceManager \<Rightarrow> jsnum" where
  "getCurrentFPS s = js_round (currentFPS s)"

definition setQualityLevel ::
    "perfData behaviour \<Rightarrow> nat option \<Rightarrow> real option \<Rightarrow> string option \<Rightarrow> string \<Rightarrow>
     performanceManager \<Rightarrow> performanceManager" where
  "setQualityLevel beh hc dm conn level s =
     (if level \<in> set [''high'', ''medium'', ''low'', ''auto''] then
        (let s1 = (if level = ''auto''
                   then (detectDevicePerformance hc dm conn s)\<lparr>adaptiveQuality := True\<rparr>
                   else s\<lparr>qualityLevel := level, adaptiveQuality := False\<rparr>)
         in saveSettings (applyQualitySettings beh s1))
      else s)"

text \<open>
  \<open>onPerformanceChange(callback)\<close>: the new state and the function it returns, which
  deletes the callback from the set of the manager it is later applied to.
\<close>

definition onPerformanceChange ::
    "callback \<Rightarrow> performanceManager \<Rightarrow> performanceManager \<times> (performanceManager \<Rightarrow> performanceManager)" where
  "onPerformanceChange cb s =
     (s\<lparr>callbacks := set_add cb (callbacks s)\<rparr>,
      \<lambda>t. t\<lparr>callbacks := set_delete cb (callbacks t)\<rparr>)"

record performanceStats =
  stats_currentFPS :: jsnum
  stats_targetFPS :: real
  stats_qualityLevel :: string
  stats_frameCount :: nat
  stats_deviceInfo :: "deviceInfo option"
  stats_adaptiveQuality :: bool
  averageFPS :: jsnum

definition getPerformanceStats :: "performanceManager \<Rightarrow> performanceStats" where
  "getPerformanceStats s =
     \<lparr>stats_currentFPS = js_round (currentFPS s),
      stats_targetFPS = targetFPS s,
      stats_qualityLevel = qualityLevel s,
      stats_frameCount = frameCount s,
      stats_deviceInfo = deviceInfo s,
      stats_adaptiveQuality = adaptiveQuality s,
      averageFPS = js_round (js_div (foldl js_add (Num 0) (fpsHistory s))
                                   (Num (real (length (fpsHistory s)))))\<rparr>"

definition resetStats :: "real \<Rightarrow> performanceManager \<Rightarrow> performanceManager" where
  "resetStats now s = s\<lparr>fpsHistory := [], frameCount := 0, lastFrameTime := now\<rparr>"

text \<open>
  The monitoring loop: the host runs \<open>monitor\<close> once per animation frame, at the given
  times.  The samples these runs record, starting after the time \<open>t0\<close> of the previous run:
\<close>

fun frameSamples :: "real \<Rightarrow> real list \<Rightarrow> jsnum list" where
  "frameSamples t0 [] = []"
| "frameSamples t0 (t # ts) = js_div (Num 1000) (Num (t - t0)) # frameSamples t ts"

text \<open>The last \<open>n\<close> elements of a list, in their order.\<close>

definition lastN :: "nat \<Rightarrow> 'a list \<Rightarrow> 'a list" where
  "lastN n xs = drop (length xs - n) xs"


section \<open>The shared input manager\<close>

subsection \<open>Gesture thresholds, swipe direction and swipe validity\<close>

record thresholds =
  minSwipeDistance :: real
  maxSwipeTime :: real
  minSwipeVelocity :: real

text \<open>The thresholds that \<open>setupGestureEvents\<close> installs.\<close>

definition setupGestureEvents :: thresholds where
  "setupGestureEvents =
     \<lparr>minSwipeDistance = 30, maxSwipeTime = 500, minSwipeVelocity = 1 / 10\<rparr>"

text \<open>
  \<open>getSwipeDirection(deltaX, deltaY)\<close> on finite numbers; the result \<open>null\<close> is
  \<open>None\<close>.
\<close>

definition getSwipeDirection :: "thresholds \<Rightarrow> real \<Rightarrow> real \<Rightarrow> string option" where
  "getSwipeDirection th deltaX deltaY =
     (let absX = \<bar>deltaX\<bar>; absY = \<bar>deltaY\<bar> in
      if absX < minSwipeDistance th \<and> absY < minSwipeDistance th then None
      else if absX > absY then (if deltaX > 0 then Some ''right'' else Some ''left'')
      else (if deltaY > 0 then Some ''down'' else Some ''up''))"

text \<open>
  The classification as the specification words it: the horizontal branch is taken
  when \<open>|deltaX| \<ge> |deltaY|\<close>.
\<close>

definition classify_spec :: "real \<Rightarrow> real \<Rightarrow> real \<Rightarrow> string option" where
  "classify_spec minDistance deltaX deltaY =
     (if \<bar>deltaX\<bar> < minDistance \<and> \<bar>deltaY\<bar> < minDistance then None
      else if \<bar>deltaX\<bar> \<ge> \<bar>deltaY\<bar> then (if deltaX > 0 then Some ''right'' else Some ''left'')
      else (if deltaY > 0 then Some ''down'' else Some ''up''))"

record swipeData =
  deltaX :: real
  deltaY :: real
  distance :: real
  duration :: real
  direction :: "string option"

text \<open>
  \<open>isValidSwipe(swipeData)\<close>: three rejecting checks in the order of the source.  The
  velocity is a JavaScript quotient, so a zero duration gives an infinity or
  not-a-number rather than a number.
\<close>

definition isValidSwipe :: "thresholds \<Rightarrow> swipeData \<Rightarrow> bool" where
  "isValidSwipe th sw =
     (if distance sw < minSwipeDistance th then False
      else if duration sw > maxSwipeTime th then False
      else (let velocity = js_div (Num (distance sw)) (Num (duration sw)) in
            if js_lt velocity (Num (minSwipeVelocity th)) then False
            else True))"

text \<open>
  The validity predicate as the specification words it, a conjunction of three
  lower/upper bounds, with the JavaScript reading of the quotient and of \<open>\<ge>\<close>.
\<close>

definition isValidSwipe_spec :: "thresholds \<Rightarrow> swipeData \<Rightarrow> bool" where
  "isValidSwipe_spec th sw =
     (distance sw \<ge> minSwipeDistance th \<and> duration sw \<le> maxSwipeTime th \<and>
      js_ge (js_div (Num (distance sw)) (Num (duration sw))) (Num (minSwipeVelocity th)))"


subsection \<open>State, event handlers and the callback registry\<close>

text \<open>
  A changed touch of a touch event (\<open>ident\<close> is its \<open>identifier\<close>), the record the
  manager keeps for an active touch (\<open>touch_id\<close> is its \<open>id\<close>), and a key event.
\<close>

record touch =
  ident :: int
  clientX :: real
  clientY :: real

record touchData =
  touch_id :: int
  startX :: real
  startY :: real
  currentX :: real
  currentY :: real
  startTime :: real

record keyEvent =
  key :: string
  ctrlKey :: bool
  shiftKey :: bool
  altKey :: bool

text \<open>The payloads handed to the callbacks of the five event kinds.\<close>

datatype inputData =
    KeyDownData string bool bool bool
  | KeyUpData string
  | TouchStartData "touch list"
  | TouchMoveData "touch list"
  | TouchEndData "touch list" swipeData

record inputManager =
  keys :: "(string \<times> bool) list"
  touches :: "(int \<times> touchData) list"
  callbacks :: "(string \<times> callback list) list"
  enabled :: bool
  gestureThresholds :: thresholds
  inputEffects :: "inputData effects"

text \<open>The state after the constructor has run \<open>init\<close>.\<close>

definition init :: inputManager where
  "init = \<lparr>keys = [], touches = [], callbacks = [], enabled = True,
           gestureThresholds = setupGestureEvents,
           inputEffects = \<lparr>invoked = [], warned = []\<rparr>\<rparr>"

text \<open>\<open>toLowerCase\<close> on ASCII letters.\<close>

definition toLowerCase :: "string \<Rightarrow> string" where
  "toLowerCase str =
     map (\<lambda>c. if 65 \<le> (of_char c :: nat) \<and> (of_char c :: nat) \<le> 90
              then char_of (of_char c + (32 :: nat)) else c) str"

definition triggerCallback :: "inputData behaviour \<Rightarrow> string \<Rightarrow> inputData \<Rightarrow> inputManager \<Rightarrow> inputManager" where
  "triggerCallback beh event d s =
     (case map_get (callbacks s) event of
        None \<Rightarrow> s
      | Some cbs \<Rightarrow> s\<lparr>inputEffects := forEach_try beh event d cbs (inputEffects s)\<rparr>)"

text \<open>
  The \<open>keydown\<close> and \<open>keyup\<close> listeners.  (\<open>preventDefault\<close> acts on the host's event
  only and is left out.)
\<close>

definition keydown :: "inputData behaviour \<Rightarrow> keyEvent \<Rightarrow> inputManager \<Rightarrow> inputManager" where
  "keydown beh e s =
     (if \<not> enabled s then s
      else
        (let k = toLowerCase (key e);
             s1 = s\<lparr>keys := map_set k True (keys s)\<rparr>
         in triggerCallback beh ''keydown'' (KeyDownData k (ctrlKey e) (shiftKey e) (altKey e)) s1))"

definition keyup :: "inputData behaviour \<Rightarrow> keyEvent \<Rightarrow> inputManager \<Rightarrow> inputManager" where
  "keyup beh e s =
     (if \<not> enabled s then s
      else
        (let k = toLowerCase (key e);
             s1 = s\<lparr>keys := map_set k False (keys s)\<rparr>
         in triggerCallback beh ''keyup'' (KeyUpData k) s1))"

text \<open>The \<open>blur\<close> listener of the window.\<close>

definition blur :: "inputManager \<Rightarrow> inputManager" where
  "blur s = s\<lparr>keys := []\<rparr>"

text \<open>
  The touch listeners, given the changed touches of the event and the value of
  \<open>Date.now()\<close>.
\<close>

definition touchstart :: "inputData behaviour \<Rightarrow> real \<Rightarrow> touch list \<Rightarrow> inputManager \<Rightarrow> inputManager" where
  "touchstart beh now ts s =
     (if \<not> enabled s then s
      else
        (let s1 = s\<lparr>touches :=
               fold (\<lambda>t m. map_set (ident t)
                      \<lparr>touch_id = ident t, startX = clientX t, startY = clientY t,
                       currentX = clientX t, currentY = clientY t, startTime = now\<rparr> m)
                    ts (touches s)\<rparr>
         in triggerCallback beh ''touchstart'' (TouchStartData ts) s1))"

definition touchmove :: "inputData behaviour \<Rightarrow> touch list \<Rightarrow> inputManager \<Rightarrow> inputManager" where
  "touchmove beh ts s =
     (if \<not> enabled s then s
      else
        (let s1 = s\<lparr>touches :=
               fold (\<lambda>t m. case map_get m (ident t) of
                        None \<Rightarrow> m
                      | Some td \<Rightarrow> map_set (ident t)
                          (td\<lparr>currentX := clientX t, currentY := clientY t\<rparr>) m)
                    ts (touches s)\<rparr>
         in triggerCallback beh ''touchmove'' (TouchMoveData ts) s1))"

definition touchend_one :: "inputData behaviour \<Rightarrow> real \<Rightarrow> touch list \<Rightarrow> touch \<Rightarrow> inputManager \<Rightarrow> inputManager" where
  "touchend_one beh now ts t s =
     (case map_get (touches s) (ident t) of
        None \<Rightarrow> s
      | Some td \<Rightarrow>
          (let dX = currentX td - startX td;
               dY = currentY td - startY td;
               dur = now - startTime td;
               dist = sqrt (dX * dX + dY * dY);
               s1 = triggerCallback beh ''touchend''
                      (TouchEndData ts \<lparr>deltaX = dX, deltaY = dY, distance = dist, duration = dur,
                         direction = getSwipeDirection (gestureThresholds s) dX dY\<rparr>) s
           in s1\<lparr>touches := map_delete (ident t) (touches s1)\<rparr>))"

definition touchend :: "inputData behaviour \<Rightarrow> real \<Rightarrow> touch list \<Rightarrow> inputManager \<Rightarrow> inputManager" where
  "touchend beh now ts s =
     (if \<not> enabled s then s else fold (touchend_one beh now ts) ts s)"

definition isKeyPressed :: "inputManager \<Rightarrow> string \<Rightarrow> bool" where
  "isKeyPressed s k = (case map_get (keys s) (toLowerCase k) of None \<Rightarrow> False | Some b \<Rightarrow> b)"

definition getPressedKeys :: "inputManager \<Rightarrow> string list" where
  "getPressedKeys s = map fst (filter (\<lambda>(k, pressed). pressed) (keys s))"

definition getActiveTouches :: "inputManager \<Rightarrow> touchData list" where
  "getActiveTouches s = map snd (touches s)"

definition getTouchCount :: "inputManager \<Rightarrow> nat" where
  "getTouchCount s = length (touches s)"

text \<open>
  The function that \<open>on(event, callback)\<close> returns, which is also the body of
  \<open>off(event, callback)\<close>: it looks the set of the kind up when it is called and
  deletes the callback from it.
\<close>

definition off :: "string \<Rightarrow> callback \<Rightarrow> inputManager \<Rightarrow> inputManager" where
  "off event cb s =
     (case map_get (callbacks s) event of
        None \<Rightarrow> s
      | Some cbs \<Rightarrow> s\<lparr>callbacks := map_set event (set_delete cb cbs) (callbacks s)\<rparr>)"

text \<open>\<open>on(event, callback)\<close>: the new state and the unsubscribe function.\<close>

definition on :: "string \<Rightarrow> callback \<Rightarrow> inputManager \<Rightarrow> inputManager \<times> (inputManager \<Rightarrow> inputManager)" where
  "on event cb s =
     (let s1 = (if map_get (callbacks s) event = None
                then s\<lparr>callbacks := map_set event [] (callbacks s)\<rparr> else s);
          cbs = (case map_get (callbacks s1) event of None \<Rightarrow> [] | Some c \<Rightarrow> c)
      in (s1\<lparr>callbacks := map_set event (set_add cb cbs) (callbacks s1)\<rparr>, off event cb))"

definition setGestureThresholds ::
    "real option \<Rightarrow> real option \<Rightarrow> real option \<Rightarrow> inputManager \<Rightarrow> inputManager" where
  "setGestureThresholds d t v s =
     s\<lparr>gestureThresholds :=
         \<lparr>minSwipeDistance = (case d of None \<Rightarrow> minSwipeDistance (gestureThresholds s) | Some x \<Rightarrow> x),
          maxSwipeTime = (case t of None \<Rightarrow> maxSwipeTime (gestureThresholds s) | Some x \<Rightarrow> x),
          minSwipeVelocity = (case v of None \<Rightarrow> minSwipeVelocity (gestureThresholds s) | Some x \<Rightarrow> x)\<rparr>\<rparr>"

definition enable :: "inputManager \<Rightarrow> inputManager" where
  "enable s = s\<lparr>enabled := True\<rparr>"

definition disable :: "inputManager \<Rightarrow> inputManager" where
  "disable s = s\<lparr>enabled := False, keys := [], touches := []\<rparr>"

definition reset :: "inputManager \<Rightarrow> inputManager" where
  "reset s = s\<lparr>keys := [], touches := []\<rparr>"

definition dispose :: "inputManager \<Rightarrow> inputManager" where
  "dispose s = (reset s)\<lparr>callbacks := []\<rparr>"

text \<open>
  The calls the host and the games can make on the input manager, and a run of
  a sequence of them.
\<close>

datatype inputOp =
    KeyDown keyEvent
  | KeyUp keyEvent
  | Blur
  | TouchStart real "touch list"
  | TouchMove "touch list"
  | TouchEnd real "touch list"
  | On string callback
  | Off string callback
  | SetGestureThresholds "real option" "real option" "real option"
  | Enable
  | Disable
  | Reset
  | Dispose

fun exec :: "inputData behaviour \<Rightarrow> inputOp \<Rightarrow> inputManager \<Rightarrow> inputManager" where
  "exec beh (KeyDown e) s = keydown beh e s"
| "exec beh (KeyUp e) s = keyup beh e s"
| "exec beh Blur s = blur s"
| "exec beh (TouchStart now ts) s = touchstart beh now ts s"
| "exec beh (TouchMove ts) s = touchmove beh ts s"
| "exec beh (TouchEnd now ts) s = touchend beh now ts s"
| "exec beh (On event cb) s = fst (on event cb s)"
| "exec beh (Off event cb) s = off event cb s"
| "exec beh (SetGestureThresholds d t v) s = setGestureThresholds d t v s"
| "exec beh Enable s = enable s"
| "exec beh Disable s = disable s"
| "exec beh Reset s = reset s"
| "exec beh Dispose s = dispose s"

definition execs :: "inputData behaviour \<Rightarrow> inputOp list \<Rightarrow> inputManager \<Rightarrow> inputManager" where
  "execs beh ops s = fold (exec beh) ops s"

text \<open>The callbacks registered for an event kind, in registration order.\<close>

definition subscribers :: "inputManager \<Rightarrow> string \<Rightarrow> callback list" where
  "subscribers s event = (case map_get (callbacks s) event of None \<Rightarrow> [] | Some cbs \<Rightarrow> cbs)"

text \<open>Every registered set holds each of its callbacks once.\<close>

definition wellformed :: "inputManager \<Rightarrow> bool" where
  "wellformed s = list_all (\<lambda>e. distinct (snd e)) (callbacks s)"


section \<open>The governor's evaluation as the specification words it\<close>

text \<open>
  The three tiers in their order, the names the source stores for them, and one
  evaluation step as the specification describes it: down one level below 45, up one
  level above 55, otherwise unchanged.
\<close>

datatype tier = Low | Medium | High

fun tier_name :: "tier \<Rightarrow> string" where
  "tier_name Low = ''low''"
| "tier_name Medium = ''medium''"
| "tier_name High = ''high''"

fun one_down :: "tier \<Rightarrow> tier" where
  "one_down High = Medium"
| "one_down Medium = Low"
| "one_down Low = Low"

fun one_up :: "tier \<Rightarrow> tier" where
  "one_up Low = Medium"
| "one_up Medium = High"
| "one_up High = High"

definition evaluate_spec :: "tier \<Rightarrow> jsnum \<Rightarrow> tier" where
  "evaluate_spec t a =
     (if js_lt a (Num 45) \<and> t \<noteq> Low then one_down t
      else if js_gt a (Num 55) \<and> t \<noteq> High then one_up t
      else t)"


section \<open>Calls on the performance manager\<close>

text \<open>
  The calls that can be made on the performance manager, and a run of a sequence of
  them.  \<open>Unsubscribe cb\<close> is a call of a function returned by
  \<open>onPerformanceChange(cb)\<close>.
\<close>

datatype perfOp =
    Monitor real
  | StartMonitoring real
  | StopMonitoring
  | SetQualityLevel "nat option" "real option" "string option" string
  | ResetStats real
  | OnPerformanceChange callback
  | Unsubscribe callback

fun pexec :: "perfData behaviour \<Rightarrow> perfOp \<Rightarrow> performanceManager \<Rightarrow> performanceManager" where
  "pexec beh (Monitor now) p = monitor beh now p"
| "pexec beh (StartMonitoring now) p = startMonitoring beh now p"
| "pexec beh StopMonitoring p = stopMonitoring p"
| "pexec beh (SetQualityLevel hc dm conn level) p = setQualityLevel beh hc dm conn level p"
| "pexec beh (ResetStats now) p = resetStats now p"
| "pexec beh (OnPerformanceChange cb) p = fst (onPerformanceChange cb p)"
| "pexec beh (Unsubscribe cb) p = snd (onPerformanceChange cb p) p"

definition pexecs :: "perfData behaviour \<Rightarrow> perfOp list \<Rightarrow> performanceManager \<Rightarrow> performanceManager" where
  "pexecs beh ops p = fold (pexec beh) ops p"


section \<open>Notions used to state the properties\<close>

text \<open>The payload of a notification published in state \<open>s\<close>, and one round of calls with it.\<close>

definition notification :: "performanceManager \<Rightarrow> perfData" where
  "notification s = \<lparr>fps = currentFPS s, quality = qualityLevel s, settings = getQualitySettings s\<rparr>"

definition round_of :: "performanceManager \<Rightarrow> (string \<times> callback \<times> perfData) list" where
  "round_of s = map (\<lambda>cb. (''performance-change'', cb, notification s)) (performanceManager.callbacks s)"

text \<open>
  A run of \<open>monitor\<close> is an evaluation step when it completes a multiple of 60 frames
  in automatic mode.
\<close>

definition evaluates :: "performanceManager \<Rightarrow> bool" where
  "evaluates s = ((frameCount s + 1) mod 60 = 0 \<and> adaptiveQuality s)"

text \<open>The first half of \<open>monitor\<close>: the state once the sample of the frame is recorded.\<close>

definition recorded :: "real \<Rightarrow> performanceManager \<Rightarrow> performanceManager" where
  "recorded now s =
     (let pushed = fpsHistory s @ [js_div (Num 1000) (Num (now - lastFrameTime s))];
          history = (if length pushed > maxHistoryLength s then tl pushed else pushed)
      in s\<lparr>fpsHistory := history, currentFPS := average history,
           lastFrameTime := now, frameCount := frameCount s + 1\<rparr>)"

text \<open>
  The warnings a dispatch over a list of callbacks writes, given the calls made before
  it: one line for each callback that throws.
\<close>

fun caught :: "'d behaviour \<Rightarrow> string \<Rightarrow> 'd \<Rightarrow> callback list \<Rightarrow> (string \<times> callback \<times> 'd) list \<Rightarrow> (string \<times> string) list" where
  "caught beh event d [] h = []"
| "caught beh event d (cb # cbs) h =
     (case beh cb h d of Returns \<Rightarrow> [] | Throws err \<Rightarrow> [(event, err)])
     @ caught beh event d cbs (h @ [(event, cb, d)])"

text \<open>The calls of one callback for one event kind within a list of calls.\<close>

definition calls :: "string \<Rightarrow> callback \<Rightarrow> (string \<times> callback \<times> 'd) list \<Rightarrow> (string \<times> callback \<times> 'd) list" where
  "calls event cb tr = filter (\<lambda>e. fst e = event \<and> fst (snd e) = cb) tr"


section \<open>Example environments and states\<close>

text \<open>A callback environment in which every call returns.\<close>

definition all_return :: "'d behaviour" where
  "all_return cb h d = Returns"

text \<open>A callback environment in which callback 1 throws and every other call returns.\<close>

definition first_throws :: "'d behaviour" where
  "first_throws cb h d = (if cb = 1 then Throws ''boom'' else Returns)"

text \<open>A manager on a high-tier device whose current average is 40.\<close>

definition high_at_40 :: performanceManager where
  "high_at_40 = (constructor 0 (Some 8) (Some 8) (Some ''4g'') None)\<lparr>currentFPS := Num 40\<rparr>"

text \<open>
  A manager on a medium-tier device with subscriber 7 starts monitoring 16 ms after
  its construction and then sees a frame every 20 ms; \<open>steady_run n\<close> is its state
  after \<open>n\<close> such frames.
\<close>

definition medium_device :: performanceManager where
  "medium_device = constructor 0 (Some 2) (Some 4) (Some ''4g'') None"

definition started :: performanceManager where
  "started = startMonitoring all_return 16 (fst (onPerformanceChange 7 medium_device))"

definition steady_frames :: "nat \<Rightarrow> real list" where
  "steady_frames n = map (\<lambda>i. 16 + 20 * real i) [1..<Suc n]"

definition steady_run :: "nat \<Rightarrow> performanceManager" where
  "steady_run n = fold (monitor all_return) (steady_frames n) started"

text \<open>An input manager with callbacks 1 and 2 registered, in this order, for \<open>keydown\<close>.\<close>

definition two_listeners :: inputManager where
  "two_listeners = fst (on ''keydown'' 2 (fst (on ''keydown'' 1 init)))"

text \<open>The key event of the key \<open>A\<close> without modifiers.\<close>

definition key_A :: keyEvent where
  "key_A = \<lparr>key = ''A'', ctrlKey = False, shiftKey = False, altKey = False\<rparr>"

text \<open>
  An input manager with callback 3 registered for \<open>keyup\<close> and callback 4 for
  \<open>keydown\<close>, after the key \<open>A\<close> went down.
\<close>

definition key_a_down :: inputManager where
  "key_a_down = keydown all_return key_A (fst (on ''keydown'' 4 (fst (on ''keyup'' 3 init))))"


section \<open>Properties of the gesture classifier\<close>

text \<open>
  C1 (as stated, refuted): the specification sends an exact tie
  \<open>|deltaX| = |deltaY|\<close> at the threshold to the horizontal branch; the source compares
  with a strict \<open>>\<close> and answers \<open>down\<close> for the displacement \<open>(30, 30)\<close>.
\<close>

theorem getSwipeDirection_tie_counterexample:
  "getSwipeDirection setupGestureEvents 30 30 = Some ''down'' \<and>
   classify_spec (minSwipeDistance setupGestureEvents) 30 30 = Some ''right''"
  by (simp add: getSwipeDirection_def classify_spec_def setupGestureEvents_def)

text \<open>
  C1 (amended): for every finite displacement and every threshold, the classifier
  answers \<open>null\<close> exactly when both absolute displacements are below the minimum
  distance; otherwise it answers \<open>right\<close>/\<open>left\<close> by the sign of \<open>deltaX\<close> when
  \<open>|deltaX| > |deltaY|\<close> strictly, and \<open>down\<close>/\<open>up\<close> by the sign of \<open>deltaY\<close> when
  \<open>|deltaX| \<le> |deltaY|\<close>.  In particular an exact tie that is not below the threshold
  is classified vertically.
\<close>

theorem getSwipeDirection_cases:
  "(getSwipeDirection th dx dy = None \<longleftrightarrow>
      \<bar>dx\<bar> < minSwipeDistance th \<and> \<bar>dy\<bar> < minSwipeDistance th)
   \<and> (getSwipeDirection th dx dy = Some ''right'' \<longleftrightarrow>
      \<not> (\<bar>dx\<bar> < minSwipeDistance th \<and> \<bar>dy\<bar> < minSwipeDistance th) \<and> \<bar>dx\<bar> > \<bar>dy\<bar> \<and> dx > 0)
   \<and> (getSwipeDirection th dx dy = Some ''left'' \<longleftrightarrow>
      \<not> (\<bar>dx\<bar> < minSwipeDistance th \<and> \<bar>dy\<bar> < minSwipeDistance th) \<and> \<bar>dx\<bar> > \<bar>dy\<bar> \<and> \<not> dx > 0)
   \<and> (getSwipeDirection th dx dy = Some ''down'' \<longleftrightarrow>
      \<not> (\<bar>dx\<bar> < minSwipeDistance th \<and> \<bar>dy\<bar> < minSwipeDistance th) \<and> \<bar>dx\<bar> \<le> \<bar>dy\<bar> \<and> dy > 0)
   \<and> (getSwipeDirection th dx dy = Some ''up'' \<longleftrightarrow>
      \<not> (\<bar>dx\<bar> < minSwipeDistance th \<and> \<bar>dy\<bar> < minSwipeDistance th) \<and> \<bar>dx\<bar> \<le> \<bar>dy\<bar> \<and> \<not> dy > 0)
   \<and> (\<not> (\<bar>dx\<bar> < minSwipeDistance th \<and> \<bar>dy\<bar> < minSwipeDistance th) \<and> \<bar>dx\<bar> = \<bar>dy\<bar> \<longrightarrow>
      getSwipeDirection th dx dy = (if dy > 0 then Some ''down'' else Some ''up''))"
  unfolding getSwipeDirection_def Let_def
  by (simp add: not_less)

theorem getSwipeDirection_cases_witness:
  "getSwipeDirection setupGestureEvents 40 2 = Some ''right'' \<and>
   getSwipeDirection setupGestureEvents 5 5 = None \<and>
   getSwipeDirection setupGestureEvents 0 190 = Some ''down'' \<and>
   getSwipeDirection setupGestureEvents (- 30) (- 30) = Some ''up''"
  using getSwipeDirection_cases [of setupGestureEvents 40 2]
    getSwipeDirection_cases [of setupGestureEvents 5 5]
    getSwipeDirection_cases [of setupGestureEvents 0 190]
    getSwipeDirection_cases [of setupGestureEvents "- 30" "- 30"]
  by (simp add: setupGestureEvents_def)

text \<open>
  C8 (as stated, refuted): with the minimum distance configured to \<open>0\<close>, a contact
  that did not move and was released within the same millisecond has distance \<open>0\<close>
  and duration \<open>0\<close>.  Its velocity \<open>0 / 0\<close> is not-a-number, which is not below the
  minimum velocity, so the source accepts the swipe; the stated condition
  \<open>distance / duration \<ge> minVelocity\<close> does not hold of it.
\<close>

theorem isValidSwipe_nan_counterexample:
  "isValidSwipe \<lparr>minSwipeDistance = 0, maxSwipeTime = 500, minSwipeVelocity = 1 / 10\<rparr>
     \<lparr>deltaX = 0, deltaY = 0, distance = 0, duration = 0, direction = Some ''up''\<rparr> = True \<and>
   isValidSwipe_spec \<lparr>minSwipeDistance = 0, maxSwipeTime = 500, minSwipeVelocity = 1 / 10\<rparr>
     \<lparr>deltaX = 0, deltaY = 0, distance = 0, duration = 0, direction = Some ''up''\<rparr> = False"
  by (simp add: isValidSwipe_def isValidSwipe_spec_def)

text \<open>
  C8 (amended): for every swipe result with finite distance and duration whose
  distance and duration are not both zero, and for every swipe result at all when the
  minimum distance is positive (as the default 30 is), \<open>isValidSwipe\<close> answers true if
  and only if \<open>distance \<ge> minDistance\<close> and \<open>duration \<le> maxDuration\<close> and
  \<open>distance / duration \<ge> minVelocity\<close>.
\<close>

theorem isValidSwipe_iff:
  assumes "0 < minSwipeDistance th \<or> distance sw \<noteq> 0 \<or> duration sw \<noteq> 0"
  shows "isValidSwipe th sw = isValidSwipe_spec th sw"
proof (cases "distance sw < minSwipeDistance th \<or> duration sw > maxSwipeTime th")
  case True
  then show ?thesis
    by (auto simp: isValidSwipe_def isValidSwipe_spec_def)
next
  case False
  with assms have nz: "distance sw \<noteq> 0 \<or> duration sw \<noteq> 0"
    by auto
  from False have "isValidSwipe th sw =
      (\<not> js_lt (js_div (Num (distance sw)) (Num (duration sw))) (Num (minSwipeVelocity th)))"
    by (simp add: isValidSwipe_def Let_def)
  also from nz have "\<dots> =
      js_ge (js_div (Num (distance sw)) (Num (duration sw))) (Num (minSwipeVelocity th))"
    by (auto simp: not_less)
  also from False have "\<dots> = isValidSwipe_spec th sw"
    by (simp add: isValidSwipe_spec_def not_less)
  finally show ?thesis .
qed

theorem isValidSwipe_iff_witness:
  "isValidSwipe setupGestureEvents \<lparr>deltaX = 0, deltaY = 190, distance = 190, duration = 600, direction = Some ''down''\<rparr> = False \<and>
   isValidSwipe_spec setupGestureEvents \<lparr>deltaX = 0, deltaY = 190, distance = 190, duration = 600, direction = Some ''down''\<rparr> = False \<and>
   190 \<ge> minSwipeDistance setupGestureEvents \<and> 600 > maxSwipeTime setupGestureEvents"
  using isValidSwipe_iff [of setupGestureEvents
      "\<lparr>deltaX = 0, deltaY = 190, distance = 190, duration = 600, direction = Some ''down''\<rparr>"]
  by (simp add: setupGestureEvents_def isValidSwipe_spec_def)

section \<open>Dispatch and frame lemmas\<close>

text \<open>
  A dispatch calls every callback of the list, in order, whatever the callbacks do; the
  evaluation and notification functions of the performance manager leave the monitoring
  fields alone.
\<close>

lemma try_call_invoked:
  "invoked (try_call beh ev d cb w) = invoked w @ [(ev, cb, d)]"
  by (simp add: try_call_def call_def split: outcome.split)

lemma forEach_try_invoked:
  "invoked (forEach_try beh ev d cbs w) = invoked w @ map (\<lambda>cb. (ev, cb, d)) cbs"
  unfolding forEach_try_def
  by (induction cbs arbitrary: w) (simp_all add: try_call_invoked)

lemma try_call_warned:
  "warned (try_call beh ev d cb w) =
     warned w @ (case beh cb (invoked w) d of Returns \<Rightarrow> [] | Throws err \<Rightarrow> [(ev, err)])"
  by (simp add: try_call_def call_def split: outcome.split)

lemma notifyCallbacks_frame:
  "qualityLevel (notifyCallbacks beh s) = qualityLevel s"
  "currentFPS (notifyCallbacks beh s) = currentFPS s"
  "fpsHistory (notifyCallbacks beh s) = fpsHistory s"
  "maxHistoryLength (notifyCallbacks beh s) = maxHistoryLength s"
  "lastFrameTime (notifyCallbacks beh s) = lastFrameTime s"
  "frameCount (notifyCallbacks beh s) = frameCount s"
  "adaptiveQuality (notifyCallbacks beh s) = adaptiveQuality s"
  "monitoringEnabled (notifyCallbacks beh s) = monitoringEnabled s"
  "performanceManager.callbacks (notifyCallbacks beh s) = performanceManager.callbacks s"
  "storage (notifyCallbacks beh s) = storage s"
  "rootStyle (notifyCallbacks beh s) = rootStyle s"
  "targetFPS (notifyCallbacks beh s) = targetFPS s"
  by (simp_all add: notifyCallbacks_def Let_def)

lemma getQualitySettings_cong:
  "qualityLevel s = qualityLevel t \<Longrightarrow> getQualitySettings s = getQualitySettings t"
  by (simp add: getQualitySettings_def)

lemma notifyCallbacks_invoked:
  "invoked (perfEffects (notifyCallbacks beh s)) =
     invoked (perfEffects s) @
     map (\<lambda>cb. (''performance-change'', cb,
            \<lparr>fps = currentFPS s, quality = qualityLevel s, settings = getQualitySettings s\<rparr>))
         (performanceManager.callbacks s)"
  by (simp add: notifyCallbacks_def Let_def forEach_try_invoked)

lemma applyQualitySettings_frame:
  "qualityLevel (applyQualitySettings beh s) = qualityLevel s"
  "currentFPS (applyQualitySettings beh s) = currentFPS s"
  "fpsHistory (applyQualitySettings beh s) = fpsHistory s"
  "maxHistoryLength (applyQualitySettings beh s) = maxHistoryLength s"
  "lastFrameTime (applyQualitySettings beh s) = lastFrameTime s"
  "frameCount (applyQualitySettings beh s) = frameCount s"
  "adaptiveQuality (applyQualitySettings beh s) = adaptiveQuality s"
  "monitoringEnabled (applyQualitySettings beh s) = monitoringEnabled s"
  "performanceManager.callbacks (applyQualitySettings beh s) = performanceManager.callbacks s"
  "storage (applyQualitySettings beh s) = storage s"
  "targetFPS (applyQualitySettings beh s) = targetFPS s"
  by (simp_all add: applyQualitySettings_def Let_def notifyCallbacks_frame)

lemma applyQualitySettings_invoked:
  "invoked (perfEffects (applyQualitySettings beh s)) =
     invoked (perfEffects s) @
     map (\<lambda>cb. (''performance-change'', cb,
            \<lparr>fps = currentFPS s, quality = qualityLevel s, settings = getQualitySettings s\<rparr>))
         (performanceManager.callbacks s)"
  by (simp add: applyQualitySettings_def Let_def notifyCallbacks_invoked getQualitySettings_def)

lemma saveSettings_frame:
  "qualityLevel (saveSettings s) = qualityLevel s"
  "currentFPS (saveSettings s) = currentFPS s"
  "fpsHistory (saveSettings s) = fpsHistory s"
  "maxHistoryLength (saveSettings s) = maxHistoryLength s"
  "lastFrameTime (saveSettings s) = lastFrameTime s"
  "frameCount (saveSettings s) = frameCount s"
  "adaptiveQuality (saveSettings s) = adaptiveQuality s"
  "monitoringEnabled (saveSettings s) = monitoringEnabled s"
  "performanceManager.callbacks (saveSettings s) = performanceManager.callbacks s"
  "perfEffects (saveSettings s) = perfEffects s"
  "targetFPS (saveSettings s) = targetFPS s"
  by (simp_all add: saveSettings_def split: option.split)

lemma adjustQuality_frame:
  "currentFPS (adjustQuality beh s) = currentFPS s"
  "fpsHistory (adjustQuality beh s) = fpsHistory s"
  "maxHistoryLength (adjustQuality beh s) = maxHistoryLength s"
  "lastFrameTime (adjustQuality beh s) = lastFrameTime s"
  "frameCount (adjustQuality beh s) = frameCount s"
  "adaptiveQuality (adjustQuality beh s) = adaptiveQuality s"
  "monitoringEnabled (adjustQuality beh s) = monitoringEnabled s"
  "performanceManager.callbacks (adjustQuality beh s) = performanceManager.callbacks s"
  "targetFPS (adjustQuality beh s) = targetFPS s"
  by (simp_all add: adjustQuality_def Let_def saveSettings_frame applyQualitySettings_frame)

lemma adjustQuality_qualityLevel:
  "qualityLevel (adjustQuality beh s) =
     (if js_lt (currentFPS s) (Num 45) \<and> qualityLevel s \<noteq> ''low'' then
        (if qualityLevel s = ''high'' then ''medium'' else ''low'')
      else if js_gt (currentFPS s) (Num 55) \<and> qualityLevel s \<noteq> ''high'' then
        (if qualityLevel s = ''low'' then ''medium'' else ''high'')
      else qualityLevel s)"
  by (simp add: adjustQuality_def Let_def saveSettings_frame applyQualitySettings_frame)

lemma adjustQuality_invoked:
  "invoked (perfEffects (adjustQuality beh s)) =
     invoked (perfEffects s) @
     (if qualityLevel (adjustQuality beh s) = qualityLevel s then []
      else map (\<lambda>cb. (''performance-change'', cb,
            \<lparr>fps = currentFPS s, quality = qualityLevel (adjustQuality beh s),
             settings = getQualitySettings (adjustQuality beh s)\<rparr>))
         (performanceManager.callbacks s))"
  by (simp add: adjustQuality_def Let_def saveSettings_frame applyQualitySettings_frame
      applyQualitySettings_invoked getQualitySettings_def)

section \<open>The quality governor\<close>

text \<open>
  C2: for every current tier \<open>t\<close> among low, medium and high and every average
  \<open>a\<close> (finite, infinite or not-a-number), one evaluation step of the governor
  (\<open>adjustQuality\<close>) moves the tier down exactly one level when \<open>a < 45\<close> and
  \<open>t\<close> is not low, up exactly one level when \<open>a > 55\<close> and \<open>t\<close> is not high, and
  leaves it unchanged otherwise, in particular for every \<open>a\<close> in the band from 45
  to 55; from high with \<open>a = 40\<close> one step yields medium and a second step yields low.
\<close>

theorem adjustQuality_step:
  assumes "qualityLevel s = tier_name t"
  shows "qualityLevel (adjustQuality beh s) = tier_name (evaluate_spec t (currentFPS s))
       \<and> (\<forall>a. currentFPS s = Num a \<and> 45 \<le> a \<and> a \<le> 55 \<longrightarrow>
            qualityLevel (adjustQuality beh s) = qualityLevel s)
       \<and> (currentFPS s = Num 40 \<and> t = High \<longrightarrow>
            qualityLevel (adjustQuality beh s) = ''medium'' \<and>
            qualityLevel (adjustQuality beh (adjustQuality beh s)) = ''low'')"
proof -
  have step: "qualityLevel (adjustQuality beh u) = tier_name (evaluate_spec r (currentFPS u))"
    if "qualityLevel u = tier_name r" for u r
    using that by (cases r) (simp_all add: adjustQuality_qualityLevel evaluate_spec_def)
  have band: "qualityLevel (adjustQuality beh s) = qualityLevel s"
    if "currentFPS s = Num a" "45 \<le> a" "a \<le> 55" for a
    using that by (simp add: adjustQuality_qualityLevel js_gt_def)
  have twice: "qualityLevel (adjustQuality beh s) = ''medium'' \<and>
      qualityLevel (adjustQuality beh (adjustQuality beh s)) = ''low''"
    if "currentFPS s = Num 40" "t = High"
  proof -
    from step [OF assms] that have 1: "qualityLevel (adjustQuality beh s) = tier_name Medium"
      by (simp add: evaluate_spec_def)
    have "qualityLevel (adjustQuality beh (adjustQuality beh s)) =
        tier_name (evaluate_spec Medium (currentFPS (adjustQuality beh s)))"
      by (rule step [OF 1])
    with that 1 show ?thesis
      by (simp add: adjustQuality_frame evaluate_spec_def)
  qed
  from step [OF assms] band twice show ?thesis
    by blast
qed

theorem adjustQuality_step_witness:
  "qualityLevel high_at_40 = tier_name High \<and>
   qualityLevel (adjustQuality all_return high_at_40) = ''medium'' \<and>
   qualityLevel (adjustQuality all_return (adjustQuality all_return high_at_40)) = ''low''"
proof -
  have h: "qualityLevel high_at_40 = tier_name High"
    by (simp add: high_at_40_def constructor_def loadSettings_def detectDevicePerformance_def)
  have c: "currentFPS high_at_40 = Num 40"
    by (simp add: high_at_40_def)
  from adjustQuality_step [OF h, of all_return] c
  have "qualityLevel (adjustQuality all_return high_at_40) = ''medium'' \<and>
      qualityLevel (adjustQuality all_return (adjustQuality all_return high_at_40)) = ''low''"
    by blast
  with h show ?thesis
    by blast
qed

lemma detectDevicePerformance_frame:
  "fpsHistory (detectDevicePerformance hc dm conn s) = fpsHistory s"
  "currentFPS (detectDevicePerformance hc dm conn s) = currentFPS s"
  "performanceManager.callbacks (detectDevicePerformance hc dm conn s) = performanceManager.callbacks s"
  "perfEffects (detectDevicePerformance hc dm conn s) = perfEffects s"
  "adaptiveQuality (detectDevicePerformance hc dm conn s) = adaptiveQuality s"
  "storage (detectDevicePerformance hc dm conn s) = storage s"
  unfolding detectDevicePerformance_def Let_def by simp_all

lemma loadSettings_frame:
  "fpsHistory (loadSettings s) = fpsHistory s"
  "currentFPS (loadSettings s) = currentFPS s"
  "performanceManager.callbacks (loadSettings s) = performanceManager.callbacks s"
  "perfEffects (loadSettings s) = perfEffects s"
  by (simp_all add: loadSettings_def Let_def split: option.split)

lemma constructor_fields:
  "fpsHistory (constructor now hc dm conn st) = []"
  "currentFPS (constructor now hc dm conn st) = Num 60"
  "performanceManager.callbacks (constructor now hc dm conn st) = []"
  "perfEffects (constructor now hc dm conn st) = \<lparr>invoked = [], warned = []\<rparr>"
  by (simp_all add: constructor_def loadSettings_frame detectDevicePerformance_frame)

text \<open>
  C5: with an empty sample buffer the average should fall back to the target frame
  rate 60 instead of dividing by zero.  \<open>getPerformanceStats\<close> divides the empty sum by
  the length 0: on a manager just constructed, and on any manager after \<open>resetStats\<close>,
  its \<open>averageFPS\<close> is not-a-number, while the \<open>currentFPS\<close> entry of the same object
  is the initial 60 (respectively the last average computed before the reset).
\<close>

theorem getPerformanceStats_empty_nan:
  "fpsHistory (constructor now hc dm conn st) = [] \<and>
   averageFPS (getPerformanceStats (constructor now hc dm conn st)) = NaN \<and>
   stats_currentFPS (getPerformanceStats (constructor now hc dm conn st)) = Num 60 \<and>
   averageFPS (getPerformanceStats (resetStats now s)) = NaN \<and>
   stats_currentFPS (getPerformanceStats (resetStats now s)) = js_round (currentFPS s)"
  by (simp add: getPerformanceStats_def constructor_fields resetStats_def)

section \<open>The sample buffer\<close>

lemma lastN_length: "length (lastN n xs) = min n (length xs)"
  by (simp add: lastN_def)

lemma lastN_snoc_step:
  assumes "length h \<le> n"
  shows "(if length (h @ [x]) > n then tl (h @ [x]) else h @ [x]) = lastN n (h @ [x])"
proof (cases "length h < n")
  case True
  then show ?thesis by (simp add: lastN_def)
next
  case False
  with assms have n: "length h = n" by simp
  have "tl (h @ [x]) = drop 1 (h @ [x])"
    by (cases h) simp_all
  with n show ?thesis
    by (simp add: lastN_def)
qed

lemma lastN_lastN_append: "lastN n (lastN n xs @ ys) = lastN n (xs @ ys)"
proof (cases "length xs \<le> n")
  case True
  then show ?thesis by (simp add: lastN_def)
next
  case False
  then have "length xs + length ys - (length xs - n + n) + (length xs - n) =
      length xs + length ys - n"
    by simp
  with False show ?thesis
    by (simp add: lastN_def)
qed

lemma monitor_fields:
  assumes "monitoringEnabled s"
  shows "fpsHistory (monitor beh now s) =
           (if length (fpsHistory s @ [js_div (Num 1000) (Num (now - lastFrameTime s))]) > maxHistoryLength s
            then tl (fpsHistory s @ [js_div (Num 1000) (Num (now - lastFrameTime s))])
            else fpsHistory s @ [js_div (Num 1000) (Num (now - lastFrameTime s))])"
    and "currentFPS (monitor beh now s) = average (fpsHistory (monitor beh now s))"
    and "lastFrameTime (monitor beh now s) = now"
    and "maxHistoryLength (monitor beh now s) = maxHistoryLength s"
    and "monitoringEnabled (monitor beh now s)"
    and "frameCount (monitor beh now s) = frameCount s + 1"
    and "adaptiveQuality (monitor beh now s) = adaptiveQuality s"
    and "performanceManager.callbacks (monitor beh now s) = performanceManager.callbacks s"
  using assms
  by (simp_all add: monitor_def Let_def notifyCallbacks_frame adjustQuality_frame)

lemma monitor_history_lastN:
  assumes "monitoringEnabled s" "maxHistoryLength s = 60" "length (fpsHistory s) \<le> 60"
  shows "fpsHistory (monitor beh now s) =
           lastN 60 (fpsHistory s @ [js_div (Num 1000) (Num (now - lastFrameTime s))])"
  using assms lastN_snoc_step [of "fpsHistory s" 60]
  by (simp add: monitor_fields(1))

lemma monitors_history:
  assumes "monitoringEnabled s" "maxHistoryLength s = 60" "length (fpsHistory s) \<le> 60"
  shows "fpsHistory (fold (monitor beh) ts s) =
           lastN 60 (fpsHistory s @ frameSamples (lastFrameTime s) ts)
       \<and> monitoringEnabled (fold (monitor beh) ts s)
       \<and> maxHistoryLength (fold (monitor beh) ts s) = 60"
  using assms
proof (induction ts arbitrary: s)
  case Nil
  then show ?case by (simp add: lastN_def)
next
  case (Cons t ts)
  let ?s1 = "monitor beh t s"
  let ?x = "js_div (Num 1000) (Num (t - lastFrameTime s))"
  have h1: "fpsHistory ?s1 = lastN 60 (fpsHistory s @ [?x])"
    using Cons.prems by (rule monitor_history_lastN)
  have e1: "monitoringEnabled ?s1" and m1: "maxHistoryLength ?s1 = 60"
    and t1: "lastFrameTime ?s1 = t"
    using Cons.prems by (simp_all add: monitor_fields)
  have l1: "length (fpsHistory ?s1) \<le> 60"
    by (simp add: h1 lastN_length)
  from Cons.IH [OF e1 m1 l1] show ?case
    by (simp add: h1 t1 lastN_lastN_append)
qed

lemma monitors_currentFPS:
  assumes "monitoringEnabled s" "maxHistoryLength s = 60" "length (fpsHistory s) \<le> 60"
    and "ts \<noteq> []"
  shows "currentFPS (fold (monitor beh) ts s) = average (fpsHistory (fold (monitor beh) ts s))"
proof -
  from \<open>ts \<noteq> []\<close> obtain us t where ts: "ts = us @ [t]"
    by (metis rev_exhaust)
  have "monitoringEnabled (fold (monitor beh) us s)"
    using monitors_history [OF assms(1-3)] by blast
  then show ?thesis
    by (simp add: ts monitor_fields(2))
qed

lemma foldl_js_add_Num: "foldl js_add (Num a) (map Num rs) = Num (a + sum_list rs)"
  by (induction rs arbitrary: a) (simp_all add: add.assoc)

lemma average_Num:
  "rs \<noteq> [] \<Longrightarrow> average (map Num rs) = Num (sum_list rs / real (length rs))"
  by (simp add: average_def foldl_js_add_Num)


lemma started_fields:
  "monitoringEnabled started" "maxHistoryLength started = 60"
  "fpsHistory started = [Num (125 / 2)]" "lastFrameTime started = 16"
  by (simp_all add: started_def startMonitoring_def monitor_def Let_def onPerformanceChange_def
      medium_device_def constructor_def loadSettings_def detectDevicePerformance_def)

lemma frameSamples_steady:
  "frameSamples (16 + 20 * real k) (map (\<lambda>i. 16 + 20 * real i) [Suc k..<Suc k + n]) = replicate n (Num 50)"
proof (induction n arbitrary: k)
  case 0
  then show ?case by simp
next
  case (Suc n)
  have "[Suc k..<Suc k + Suc n] = Suc k # [Suc (Suc k)..<Suc (Suc k) + n]"
    by (simp add: upt_conv_Cons)
  with Suc.IH [of "Suc k"] show ?case
    by (simp add: algebra_simps)
qed


section \<open>Notifications during monitoring\<close>

lemma monitor_qualityLevel:
  assumes "monitoringEnabled s"
  shows "qualityLevel (monitor beh now s) =
     (if evaluates s then
        (if js_lt (currentFPS (monitor beh now s)) (Num 45) \<and> qualityLevel s \<noteq> ''low'' then
           (if qualityLevel s = ''high'' then ''medium'' else ''low'')
         else if js_gt (currentFPS (monitor beh now s)) (Num 55) \<and> qualityLevel s \<noteq> ''high'' then
           (if qualityLevel s = ''low'' then ''medium'' else ''high'')
         else qualityLevel s)
      else qualityLevel s)"
  using assms
  by (simp add: monitor_def evaluates_def Let_def notifyCallbacks_frame adjustQuality_frame
      adjustQuality_qualityLevel)

lemma monitor_eq:
  assumes "monitoringEnabled s"
  shows "monitor beh now s =
     (if evaluates s
      then (notifyCallbacks beh (adjustQuality beh (recorded now s)))
             \<lparr>frameRequests := frameRequests (notifyCallbacks beh (adjustQuality beh (recorded now s))) + 1\<rparr>
      else (recorded now s)\<lparr>frameRequests := frameRequests (recorded now s) + 1\<rparr>)"
  using assms
  by (simp add: monitor_def evaluates_def recorded_def Let_def)

lemma recorded_frame:
  "qualityLevel (recorded now s) = qualityLevel s"
  "perfEffects (recorded now s) = perfEffects s"
  "performanceManager.callbacks (recorded now s) = performanceManager.callbacks s"
  by (simp_all add: recorded_def Let_def)

lemma monitor_invoked:
  assumes "monitoringEnabled s"
  shows "invoked (perfEffects (monitor beh now s)) =
     invoked (perfEffects s) @
     (if evaluates s then
        (if qualityLevel (monitor beh now s) = qualityLevel s
         then round_of (monitor beh now s)
         else round_of (monitor beh now s) @ round_of (monitor beh now s))
      else [])"
proof (cases "evaluates s")
  case False
  then show ?thesis
    by (simp add: monitor_eq [OF assms] recorded_frame)
next
  case True
  let ?s1 = "recorded now s"
  let ?s' = "monitor beh now s"
  have q: "qualityLevel ?s' = qualityLevel (adjustQuality beh ?s1)"
    and f: "currentFPS ?s' = currentFPS ?s1"
    and c: "performanceManager.callbacks ?s' = performanceManager.callbacks ?s1"
    using True by (simp_all add: monitor_eq [OF assms] notifyCallbacks_frame adjustQuality_frame)
  have g: "getQualitySettings ?s' = getQualitySettings (adjustQuality beh ?s1)"
    using q by (rule getQualitySettings_cong)
  have r: "round_of ?s' =
      map (\<lambda>cb. (''performance-change'', cb,
            \<lparr>fps = currentFPS ?s1, quality = qualityLevel (adjustQuality beh ?s1),
             settings = getQualitySettings (adjustQuality beh ?s1)\<rparr>))
          (performanceManager.callbacks ?s1)"
    by (simp add: round_of_def notification_def q f c g)
  have "invoked (perfEffects ?s') =
      invoked (perfEffects (notifyCallbacks beh (adjustQuality beh ?s1)))"
    using True by (simp add: monitor_eq [OF assms])
  also have "\<dots> = invoked (perfEffects (adjustQuality beh ?s1)) @ round_of ?s'"
    by (simp add: notifyCallbacks_invoked r adjustQuality_frame)
  also have "invoked (perfEffects (adjustQuality beh ?s1)) =
      invoked (perfEffects s) @
      (if qualityLevel ?s' = qualityLevel s then [] else round_of ?s')"
    by (simp add: adjustQuality_invoked [of beh ?s1] r q recorded_frame)
  finally show ?thesis
    using True by simp
qed

lemma monitors_quiet:
  assumes "monitoringEnabled s" "frameCount s + length ts < 60"
  shows "perfEffects (fold (monitor beh) ts s) = perfEffects s
       \<and> qualityLevel (fold (monitor beh) ts s) = qualityLevel s
       \<and> frameCount (fold (monitor beh) ts s) = frameCount s + length ts
       \<and> adaptiveQuality (fold (monitor beh) ts s) = adaptiveQuality s
       \<and> performanceManager.callbacks (fold (monitor beh) ts s) = performanceManager.callbacks s"
  using assms
proof (induction ts arbitrary: s)
  case Nil
  then show ?case by simp
next
  case (Cons t ts)
  from Cons.prems have ne: "\<not> evaluates s"
    by (simp add: evaluates_def)
  have e: "monitoringEnabled (monitor beh t s)"
    and c: "frameCount (monitor beh t s) = frameCount s + 1"
    and a: "adaptiveQuality (monitor beh t s) = adaptiveQuality s"
    and b: "performanceManager.callbacks (monitor beh t s) = performanceManager.callbacks s"
    using Cons.prems by (simp_all add: monitor_fields)
  have q: "qualityLevel (monitor beh t s) = qualityLevel s"
    using Cons.prems ne by (simp add: monitor_qualityLevel)
  have w: "perfEffects (monitor beh t s) = perfEffects s"
    using Cons.prems ne by (simp add: monitor_eq recorded_frame)
  from Cons.prems c have "frameCount (monitor beh t s) + length ts < 60"
    by simp
  from Cons.IH [OF e this] show ?case
    by (simp add: c a b q w)
qed

lemma started_more:
  "frameCount started = 1" "qualityLevel started = ''medium''" "adaptiveQuality started"
  "performanceManager.callbacks started = [7]" "invoked (perfEffects started) = []"
  by (simp_all add: started_def startMonitoring_def monitor_def Let_def onPerformanceChange_def
      set_add_def medium_device_def constructor_def loadSettings_def detectDevicePerformance_def)

lemma steady_frames_Suc: "steady_frames (Suc n) = steady_frames n @ [16 + 20 * real (Suc n)]"
  by (simp add: steady_frames_def)

lemma frameSamples_steady_frames: "frameSamples 16 (steady_frames n) = replicate n (Num 50)"
  using frameSamples_steady [of 0 n] by (simp add: steady_frames_def)

lemma steady_run_58:
  "monitoringEnabled (steady_run 58)" "evaluates (steady_run 58)"
  "qualityLevel (steady_run 58) = ''medium''"
  "performanceManager.callbacks (steady_run 58) = [7]"
  "invoked (perfEffects (steady_run 58)) = []"
proof -
  have l: "length (steady_frames 58) = 58"
    by (simp add: steady_frames_def)
  have "frameCount started + length (steady_frames 58) < 60"
    by (simp add: started_more l)
  from monitors_quiet [OF started_fields(1) this, of all_return]
  show "evaluates (steady_run 58)" "qualityLevel (steady_run 58) = ''medium''"
    "performanceManager.callbacks (steady_run 58) = [7]"
    "invoked (perfEffects (steady_run 58)) = []"
    by (simp_all add: steady_run_def evaluates_def started_more l)
  from monitors_history [of started all_return "steady_frames 58"]
  show "monitoringEnabled (steady_run 58)"
    by (simp add: steady_run_def started_fields)
qed

lemma steady_run_59: "steady_run 59 = monitor all_return 1196 (steady_run 58)"
proof -
  have "steady_frames 59 = steady_frames 58 @ [1196]"
    using steady_frames_Suc [of 58] by simp
  then show ?thesis
    by (simp add: steady_run_def)
qed

lemma steady_run_59_currentFPS: "currentFPS (steady_run 59) = Num (1205 / 24)"
proof -
  have ne: "steady_frames 59 \<noteq> []"
    by (simp add: steady_frames_def)
  have "fpsHistory (steady_run 59) = lastN 60 (fpsHistory started @ frameSamples 16 (steady_frames 59))"
    using monitors_history [of started all_return "steady_frames 59"]
    by (simp add: steady_run_def started_fields)
  also have "\<dots> = map Num (125 / 2 # replicate 59 50)"
    by (simp add: started_fields frameSamples_steady_frames lastN_def)
  finally have h: "fpsHistory (steady_run 59) = map Num (125 / 2 # replicate 59 50)" .
  have "currentFPS (steady_run 59) = average (fpsHistory (steady_run 59))"
    unfolding steady_run_def
    by (rule monitors_currentFPS) (simp_all add: started_fields ne)
  also have "\<dots> = Num (sum_list (125 / 2 # replicate 59 50) / real (length (125 / 2 # replicate 59 (50::real))))"
    unfolding h by (rule average_Num) simp
  also have "\<dots> = Num (1205 / 24)"
    by (simp add: sum_list_replicate)
  finally show ?thesis .
qed

lemma steady_run_59_qualityLevel: "qualityLevel (steady_run 59) = ''medium''"
  using monitor_qualityLevel [OF steady_run_58(1), of all_return 1196] steady_run_59_currentFPS
  by (simp add: steady_run_59 [symmetric] steady_run_58 js_gt_def)

text \<open>
  C4 (as stated, refuted): an evaluation that leaves the tier unchanged should publish
  nothing.  A manager on a medium-tier device with subscriber 7 that sees a frame every
  20 ms has the average 50.2 at its 60th frame; the evaluation at that frame leaves
  the tier at medium, and subscriber 7 is called all the same, by the publish that
  \<open>monitor\<close> makes after every evaluation.
\<close>

theorem monitor_publishes_unchanged_counterexample:
  "evaluates (steady_run 58) \<and>
   qualityLevel (steady_run 58) = ''medium'' \<and>
   qualityLevel (monitor all_return 1196 (steady_run 58)) = ''medium'' \<and>
   invoked (perfEffects (steady_run 58)) = [] \<and>
   invoked (perfEffects (monitor all_return 1196 (steady_run 58))) =
     [(''performance-change'', 7, notification (monitor all_return 1196 (steady_run 58)))]"
  using monitor_invoked [OF steady_run_58(1), of all_return 1196] steady_run_59_qualityLevel
  by (simp add: steady_run_59 steady_run_58 round_of_def monitor_fields)

text \<open>
  C4 (amended): during monitoring, every evaluation step (each 60th frame in automatic
  mode) publishes a notification to the subscribers, whether or not the tier
  changes: exactly one round of calls, carrying the current tier, when the tier is
  unchanged, and at least one round, carrying the new tier, when the tier changes.
  A frame that is not an evaluation step publishes nothing.
\<close>

theorem monitor_publishes:
  assumes "monitoringEnabled s"
  shows "(evaluates s \<longrightarrow>
           (\<exists>k\<ge>1. invoked (perfEffects (monitor beh now s)) =
                     invoked (perfEffects s) @ concat (replicate k (round_of (monitor beh now s)))
                 \<and> (qualityLevel (monitor beh now s) = qualityLevel s \<longrightarrow> k = 1)))
       \<and> (\<not> evaluates s \<longrightarrow>
           invoked (perfEffects (monitor beh now s)) = invoked (perfEffects s))"
proof (intro conjI impI)
  assume e: "evaluates s"
  show "\<exists>k\<ge>1. invoked (perfEffects (monitor beh now s)) =
            invoked (perfEffects s) @ concat (replicate k (round_of (monitor beh now s)))
          \<and> (qualityLevel (monitor beh now s) = qualityLevel s \<longrightarrow> k = 1)"
  proof (cases "qualityLevel (monitor beh now s) = qualityLevel s")
    case True
    with e monitor_invoked [OF assms, of beh now]
    have "invoked (perfEffects (monitor beh now s)) =
        invoked (perfEffects s) @ concat (replicate 1 (round_of (monitor beh now s)))"
      by simp
    then show ?thesis by blast
  next
    case False
    with e monitor_invoked [OF assms, of beh now]
    have "invoked (perfEffects (monitor beh now s)) =
        invoked (perfEffects s) @ concat (replicate 2 (round_of (monitor beh now s)))"
      by (simp add: numeral_2_eq_2)
    with False show ?thesis
      by (intro exI [of _ 2]) simp
  qed
next
  assume "\<not> evaluates s"
  with monitor_invoked [OF assms, of beh now]
  show "invoked (perfEffects (monitor beh now s)) = invoked (perfEffects s)"
    by simp
qed

theorem monitor_publishes_witness:
  "monitoringEnabled (steady_run 58) \<and> evaluates (steady_run 58) \<and>
   invoked (perfEffects (monitor all_return 1196 (steady_run 58))) =
     invoked (perfEffects (steady_run 58)) @ round_of (monitor all_return 1196 (steady_run 58))"
proof -
  have q: "qualityLevel (monitor all_return 1196 (steady_run 58)) = qualityLevel (steady_run 58)"
    using steady_run_59_qualityLevel by (simp add: steady_run_59 steady_run_58)
  from monitor_publishes [OF steady_run_58(1), of all_return 1196] steady_run_58(2)
  obtain k where "invoked (perfEffects (monitor all_return 1196 (steady_run 58))) =
      invoked (perfEffects (steady_run 58)) @
      concat (replicate k (round_of (monitor all_return 1196 (steady_run 58))))"
    and "qualityLevel (monitor all_return 1196 (steady_run 58)) = qualityLevel (steady_run 58)
      \<longrightarrow> k = 1"
    by blast
  with q steady_run_58 show ?thesis
    by simp
qed

section \<open>The event dispatchers\<close>

lemma map_get_map_set:
  "map_get (map_set k v m) k' = (if k' = k then Some v else map_get m k')"
  by (induction m) (auto simp: map_get_def)

lemma map_set_same: "map_get m k = Some v \<Longrightarrow> map_set k v m = m"
  by (induction m) (auto simp: map_get_def split: if_splits)

lemma map_set_twice: "map_set k v (map_set k v' m) = map_set k v m"
  by (induction m) auto

lemma map_fst_map_set:
  "map fst (map_set k v m) = (if k \<in> set (map fst m) then map fst m else map fst m @ [k])"
  by (induction m) (auto simp: rev_image_eqI)

lemma forEach_try_warned:
  "warned (forEach_try beh ev d cbs w) = warned w @ caught beh ev d cbs (invoked w)"
  unfolding forEach_try_def
  by (induction cbs arbitrary: w) (simp_all add: try_call_warned try_call_invoked)

lemma triggerCallback_only_effects:
  "triggerCallback beh ev d s = s\<lparr>inputEffects := inputEffects (triggerCallback beh ev d s)\<rparr>"
  by (simp add: triggerCallback_def split: option.split)

lemma triggerCallback_frame:
  "keys (triggerCallback beh ev d s) = keys s"
  "touches (triggerCallback beh ev d s) = touches s"
  "inputManager.callbacks (triggerCallback beh ev d s) = inputManager.callbacks s"
  "enabled (triggerCallback beh ev d s) = enabled s"
  "gestureThresholds (triggerCallback beh ev d s) = gestureThresholds s"
  "subscribers (triggerCallback beh ev d s) ev' = subscribers s ev'"
  by (simp_all add: triggerCallback_def subscribers_def split: option.split)

lemma triggerCallback_invoked:
  "invoked (inputEffects (triggerCallback beh ev d s)) =
     invoked (inputEffects s) @ map (\<lambda>cb. (ev, cb, d)) (subscribers s ev)"
  by (simp add: triggerCallback_def subscribers_def forEach_try_invoked split: option.split)

lemma triggerCallback_warned:
  "warned (inputEffects (triggerCallback beh ev d s)) =
     warned (inputEffects s) @ caught beh ev d (subscribers s ev) (invoked (inputEffects s))"
  by (simp add: triggerCallback_def subscribers_def forEach_try_warned split: option.split)

lemma notifyCallbacks_only_effects:
  "notifyCallbacks beh p = p\<lparr>perfEffects := perfEffects (notifyCallbacks beh p)\<rparr>"
  by (simp add: notifyCallbacks_def Let_def)

lemma notifyCallbacks_round:
  "invoked (perfEffects (notifyCallbacks beh p)) = invoked (perfEffects p) @ round_of p"
  by (simp add: notifyCallbacks_invoked round_of_def notification_def)

lemma notifyCallbacks_warned:
  "warned (perfEffects (notifyCallbacks beh p)) =
     warned (perfEffects p) @
     caught beh ''performance-change'' (notification p) (performanceManager.callbacks p)
       (invoked (perfEffects p))"
  by (simp add: notifyCallbacks_def Let_def forEach_try_warned notification_def)

text \<open>
  C6: a publish (\<open>triggerCallback\<close> of the input manager, \<open>notifyCallbacks\<close> of the
  performance manager) calls every callback registered for the kind, in registration
  order, whatever the callbacks do: a callback that throws is caught inside the loop
  and logged, the callbacks after it are still called, and the publish completes with
  the publisher's own state as it was (only the calls made and the warnings written
  are added).
\<close>

theorem dispatch_isolation:
  "invoked (inputEffects (triggerCallback beh ev d s)) =
     invoked (inputEffects s) @ map (\<lambda>cb. (ev, cb, d)) (subscribers s ev)
   \<and> warned (inputEffects (triggerCallback beh ev d s)) =
     warned (inputEffects s) @ caught beh ev d (subscribers s ev) (invoked (inputEffects s))
   \<and> triggerCallback beh ev d s = s\<lparr>inputEffects := inputEffects (triggerCallback beh ev d s)\<rparr>
   \<and> invoked (perfEffects (notifyCallbacks pbeh p)) = invoked (perfEffects p) @ round_of p
   \<and> warned (perfEffects (notifyCallbacks pbeh p)) =
     warned (perfEffects p) @
     caught pbeh ''performance-change'' (notification p) (performanceManager.callbacks p)
       (invoked (perfEffects p))
   \<and> notifyCallbacks pbeh p = p\<lparr>perfEffects := perfEffects (notifyCallbacks pbeh p)\<rparr>"
  using triggerCallback_invoked [of beh ev d s] triggerCallback_warned [of beh ev d s]
    triggerCallback_only_effects [of beh ev d s] notifyCallbacks_round [of pbeh p]
    notifyCallbacks_warned [of pbeh p] notifyCallbacks_only_effects [of pbeh p]
  by (intro conjI)

lemma two_listeners_fields:
  "subscribers two_listeners ''keydown'' = [1, 2]"
  "invoked (inputEffects two_listeners) = []"
  "warned (inputEffects two_listeners) = []"
  "keys two_listeners = []" "enabled two_listeners"
  by (simp_all add: two_listeners_def on_def init_def subscribers_def map_get_def set_add_def Let_def)

theorem dispatch_isolation_witness:
  "invoked (inputEffects (triggerCallback first_throws ''keydown'' (KeyDownData ''a'' False False False) two_listeners)) =
     [(''keydown'', 1, KeyDownData ''a'' False False False), (''keydown'', 2, KeyDownData ''a'' False False False)]
   \<and> warned (inputEffects (triggerCallback first_throws ''keydown'' (KeyDownData ''a'' False False False) two_listeners)) =
     [(''keydown'', ''boom'')]"
  using dispatch_isolation [of first_throws "''keydown''" "KeyDownData ''a'' False False False" two_listeners]
  by (simp add: two_listeners_fields first_throws_def)

section \<open>Loss of focus\<close>

text \<open>
  C9: when the window loses focus (the \<open>blur\<close> listener), the whole set of pressed
  keys is cleared in one step: afterwards \<open>isKeyPressed\<close> is false of every key and
  \<open>getPressedKeys\<close> is empty.  The clearing calls no subscriber, so no \<open>keyup\<close>
  event is delivered, and the active touches and the registered callbacks are as
  before.
\<close>

theorem blur_clears_keys:
  "(\<forall>k. \<not> isKeyPressed (blur s) k)
   \<and> getPressedKeys (blur s) = []
   \<and> inputEffects (blur s) = inputEffects s
   \<and> touches (blur s) = touches s
   \<and> getActiveTouches (blur s) = getActiveTouches s
   \<and> inputManager.callbacks (blur s) = inputManager.callbacks s
   \<and> (\<forall>ev. subscribers (blur s) ev = subscribers s ev)"
  by (simp add: blur_def isKeyPressed_def getPressedKeys_def getActiveTouches_def
      subscribers_def map_get_def)

lemma toLowerCase_A: "toLowerCase ''A'' = ''a''" "toLowerCase ''a'' = ''a''"
  by code_simp+

lemma key_a_down_fields:
  "keys key_a_down = [(''a'', True)]"
  "invoked (inputEffects key_a_down) = [(''keydown'', 4, KeyDownData ''a'' False False False)]"
  "touches key_a_down = []"
  by (simp_all add: key_a_down_def keydown_def on_def init_def triggerCallback_def
      forEach_try_def try_call_def call_def all_return_def map_get_def set_add_def Let_def
      key_A_def toLowerCase_A)

theorem blur_clears_keys_witness:
  "isKeyPressed key_a_down ''a'' \<and> \<not> isKeyPressed (blur key_a_down) ''a'' \<and>
   getPressedKeys key_a_down = [''a''] \<and> getPressedKeys (blur key_a_down) = [] \<and>
   invoked (inputEffects (blur key_a_down)) = [(''keydown'', 4, KeyDownData ''a'' False False False)]"
proof -
  from blur_clears_keys [of key_a_down]
  have "\<not> isKeyPressed (blur key_a_down) ''a''" "getPressedKeys (blur key_a_down) = []"
    "inputEffects (blur key_a_down) = inputEffects key_a_down"
    by blast+
  moreover have "isKeyPressed key_a_down ''a''" "getPressedKeys key_a_down = [''a'']"
    by (simp_all add: key_a_down_fields isKeyPressed_def getPressedKeys_def map_get_def toLowerCase_A)
  ultimately show ?thesis
    by (simp add: key_a_down_fields)
qed

section \<open>The callback registries\<close>

lemma on_unsubscribe: "snd (on ev cb s) = off ev cb"
  by (simp add: on_def Let_def)

lemma subscribers_on:
  "subscribers (fst (on ev cb s)) ev' =
     (if ev' = ev then set_add cb (subscribers s ev) else subscribers s ev')"
  by (simp add: on_def Let_def subscribers_def map_get_map_set)

lemma subscribers_off:
  "subscribers (off ev cb s) ev' =
     (if ev' = ev then set_delete cb (subscribers s ev) else subscribers s ev')"
  by (simp add: off_def subscribers_def map_get_map_set set_delete_def split: option.split)

lemma on_frame:
  "inputEffects (fst (on ev cb s)) = inputEffects s"
  "keys (fst (on ev cb s)) = keys s"
  "touches (fst (on ev cb s)) = touches s"
  by (simp_all add: on_def Let_def)

lemma off_frame:
  "inputEffects (off ev cb s) = inputEffects s"
  "keys (off ev cb s) = keys s"
  "touches (off ev cb s) = touches s"
  by (simp_all add: off_def split: option.split)

lemma off_idem: "off ev cb (off ev cb s) = off ev cb s"
  by (simp add: off_def map_get_map_set map_set_twice set_delete_def split: option.split)

lemma off_funpow: "(off ev cb ^^ n) (off ev cb s) = off ev cb s"
  by (induction n) (simp_all add: off_idem)

lemma off_absent: "cb \<notin> set (subscribers s ev) \<Longrightarrow> off ev cb s = s"
  by (simp add: off_def subscribers_def set_delete_def map_set_same split: option.split)

lemma on_twice: "fst (on ev cb (fst (on ev cb s))) = fst (on ev cb s)"
  by (simp add: on_def Let_def map_get_map_set map_set_twice set_add_def)

lemma calls_append: "calls ev cb (xs @ ys) = calls ev cb xs @ calls ev cb ys"
  by (simp add: calls_def)

lemma calls_round:
  "calls ev cb (map (\<lambda>c. (ev', c, d)) cbs) =
     (if ev' = ev then map (\<lambda>c. (ev, c, d)) (filter (\<lambda>c. c = cb) cbs) else [])"
  by (induction cbs) (auto simp: calls_def)

lemma calls_triggerCallback:
  "calls ev cb (invoked (inputEffects (triggerCallback beh ev' d s))) =
     calls ev cb (invoked (inputEffects s)) @
     (if ev' = ev then map (\<lambda>c. (ev, c, d)) (filter (\<lambda>c. c = cb) (subscribers s ev)) else [])"
  by (simp add: triggerCallback_invoked calls_append calls_round)

lemma filter_absent: "cb \<notin> set cbs \<Longrightarrow> filter (\<lambda>c. c = cb) cbs = []"
  by (induction cbs) auto

lemma calls_triggerCallback_absent:
  "cb \<notin> set (subscribers s ev) \<Longrightarrow>
   calls ev cb (invoked (inputEffects (triggerCallback beh ev' d s))) = calls ev cb (invoked (inputEffects s))"
  by (simp add: calls_triggerCallback filter_absent)

text \<open>
  A callback that is not registered for a kind is not called for that kind, and stays
  unregistered, under every call on the manager other than registering it again.
\<close>

lemma subscribers_update_other:
  "subscribers (s\<lparr>keys := k\<rparr>) ev = subscribers s ev"
  "subscribers (s\<lparr>touches := t\<rparr>) ev = subscribers s ev"
  "subscribers (s\<lparr>enabled := b\<rparr>) ev = subscribers s ev"
  "subscribers (s\<lparr>gestureThresholds := g\<rparr>) ev = subscribers s ev"
  "subscribers (s\<lparr>inputEffects := w\<rparr>) ev = subscribers s ev"
  by (simp_all add: subscribers_def)

lemma touchend_one_absent:
  assumes "cb \<notin> set (subscribers s ev)"
  shows "cb \<notin> set (subscribers (touchend_one beh now ts t s) ev)
       \<and> calls ev cb (invoked (inputEffects (touchend_one beh now ts t s))) =
           calls ev cb (invoked (inputEffects s))"
  using assms
  by (simp add: touchend_one_def Let_def subscribers_update_other triggerCallback_frame
      calls_triggerCallback_absent split: option.split)

lemma touchend_fold_absent:
  assumes "cb \<notin> set (subscribers s ev)"
  shows "cb \<notin> set (subscribers (fold (touchend_one beh now ts) us s) ev)
       \<and> calls ev cb (invoked (inputEffects (fold (touchend_one beh now ts) us s))) =
           calls ev cb (invoked (inputEffects s))"
  using assms
proof (induction us arbitrary: s)
  case Nil
  then show ?case by simp
next
  case (Cons u us)
  from touchend_one_absent [OF Cons.prems, of beh now ts u]
  have 1: "cb \<notin> set (subscribers (touchend_one beh now ts u s) ev)"
    and 2: "calls ev cb (invoked (inputEffects (touchend_one beh now ts u s))) =
           calls ev cb (invoked (inputEffects s))"
    by blast+
  from Cons.IH [OF 1] 2 show ?case
    by simp
qed

lemma exec_absent:
  assumes "cb \<notin> set (subscribers s ev)" and "op \<noteq> On ev cb"
  shows "cb \<notin> set (subscribers (exec beh op s) ev)
       \<and> calls ev cb (invoked (inputEffects (exec beh op s))) = calls ev cb (invoked (inputEffects s))"
proof (cases op)
  case (KeyDown e)
  with assms show ?thesis
    by (simp add: keydown_def Let_def triggerCallback_frame subscribers_update_other
        calls_triggerCallback_absent)
next
  case (KeyUp e)
  with assms show ?thesis
    by (simp add: keyup_def Let_def triggerCallback_frame subscribers_update_other
        calls_triggerCallback_absent)
next
  case Blur
  with assms show ?thesis
    by (simp add: blur_def subscribers_update_other)
next
  case (TouchStart now ts)
  with assms show ?thesis
    by (simp add: touchstart_def Let_def triggerCallback_frame subscribers_update_other
        calls_triggerCallback_absent)
next
  case (TouchMove ts)
  with assms show ?thesis
    by (simp add: touchmove_def Let_def triggerCallback_frame subscribers_update_other
        calls_triggerCallback_absent)
next
  case (TouchEnd now ts)
  with assms touchend_fold_absent [OF assms(1), of beh now ts ts] show ?thesis
    by (simp add: touchend_def)
next
  case (On ev' cb')
  with assms show ?thesis
    by (auto simp: subscribers_on on_frame set_add_def)
next
  case (Off ev' cb')
  with assms show ?thesis
    by (auto simp: subscribers_off off_frame set_delete_def)
next
  case (SetGestureThresholds d t v)
  with assms show ?thesis
    by (simp add: setGestureThresholds_def subscribers_update_other)
next
  case Enable
  with assms show ?thesis
    by (simp add: enable_def subscribers_update_other)
next
  case Disable
  with assms show ?thesis
    by (simp add: disable_def subscribers_def)
next
  case Reset
  with assms show ?thesis
    by (simp add: reset_def subscribers_def)
next
  case Dispose
  with assms show ?thesis
    by (simp add: dispose_def reset_def subscribers_def map_get_def)
qed

lemma execs_absent:
  assumes "cb \<notin> set (subscribers s ev)" and "On ev cb \<notin> set ops"
  shows "cb \<notin> set (subscribers (execs beh ops s) ev)
       \<and> calls ev cb (invoked (inputEffects (execs beh ops s))) = calls ev cb (invoked (inputEffects s))"
  using assms unfolding execs_def
proof (induction ops arbitrary: s)
  case Nil
  then show ?case by simp
next
  case (Cons op ops)
  from Cons.prems have ne: "op \<noteq> On ev cb" and rest: "On ev cb \<notin> set ops"
    by auto
  from exec_absent [OF Cons.prems(1) ne, of beh]
  have 1: "cb \<notin> set (subscribers (exec beh op s) ev)"
    and 2: "calls ev cb (invoked (inputEffects (exec beh op s))) = calls ev cb (invoked (inputEffects s))"
    by blast+
  from Cons.IH [OF 1 rest] 2 show ?case
    by simp
qed

subsection \<open>The performance manager's subscriptions\<close>

lemma onPerformanceChange_unsubscribe:
  "performanceManager.callbacks (snd (onPerformanceChange cb p0) p) =
     removeAll cb (performanceManager.callbacks p)"
  "perfEffects (snd (onPerformanceChange cb p0) p) = perfEffects p"
  "notification (snd (onPerformanceChange cb p0) p) = notification p"
  by (simp_all add: onPerformanceChange_def set_delete_def notification_def getQualitySettings_def)

lemma onPerformanceChange_unsubscribe_idem:
  "snd (onPerformanceChange cb p0) (snd (onPerformanceChange cb p0) p) =
     snd (onPerformanceChange cb p0) p"
  by (simp add: onPerformanceChange_def set_delete_def)

lemma onPerformanceChange_unsubscribe_funpow:
  "(snd (onPerformanceChange cb p0) ^^ n) (snd (onPerformanceChange cb p0) p) =
     snd (onPerformanceChange cb p0) p"
  by (induction n) (simp_all add: onPerformanceChange_unsubscribe_idem)

lemma onPerformanceChange_unsubscribe_absent:
  "cb \<notin> set (performanceManager.callbacks p) \<Longrightarrow> snd (onPerformanceChange cb p0) p = p"
  by (simp add: onPerformanceChange_def set_delete_def)

lemma onPerformanceChange_twice:
  "fst (onPerformanceChange cb (fst (onPerformanceChange cb p))) = fst (onPerformanceChange cb p)"
  by (simp add: onPerformanceChange_def set_add_def)

lemma calls_Nil: "calls ev cb [] = []"
  by (simp add: calls_def)

lemma calls_round_of_absent:
  "cb \<notin> set (performanceManager.callbacks p) \<Longrightarrow> calls ev cb (round_of p) = []"
  by (simp add: round_of_def calls_round filter_absent)

lemma notifyCallbacks_absent:
  "cb \<notin> set (performanceManager.callbacks p) \<Longrightarrow>
   calls ev cb (invoked (perfEffects (notifyCallbacks beh p))) = calls ev cb (invoked (perfEffects p))"
  by (simp add: notifyCallbacks_round calls_append calls_round_of_absent)

lemma applyQualitySettings_round:
  "invoked (perfEffects (applyQualitySettings beh p)) = invoked (perfEffects p) @ round_of p"
  by (simp add: applyQualitySettings_invoked round_of_def notification_def)

lemma monitor_absent:
  assumes "cb \<notin> set (performanceManager.callbacks p)"
  shows "cb \<notin> set (performanceManager.callbacks (monitor beh now p))
       \<and> calls ev cb (invoked (perfEffects (monitor beh now p))) = calls ev cb (invoked (perfEffects p))"
proof (cases "monitoringEnabled p")
  case False
  with assms show ?thesis
    by (simp add: monitor_def)
next
  case True
  have c: "performanceManager.callbacks (monitor beh now p) = performanceManager.callbacks p"
    using True by (simp add: monitor_fields)
  with assms have "calls ev cb (round_of (monitor beh now p)) = []"
    by (simp add: calls_round_of_absent)
  with assms c show ?thesis
    by (simp add: monitor_invoked [OF True] calls_append calls_Nil)
qed

lemma setQualityLevel_absent:
  assumes "cb \<notin> set (performanceManager.callbacks p)"
  shows "cb \<notin> set (performanceManager.callbacks (setQualityLevel beh hc dm conn level p))
       \<and> calls ev cb (invoked (perfEffects (setQualityLevel beh hc dm conn level p))) =
           calls ev cb (invoked (perfEffects p))"
proof -
  have d: "performanceManager.callbacks (detectDevicePerformance hc dm conn p) = performanceManager.callbacks p"
    "perfEffects (detectDevicePerformance hc dm conn p) = perfEffects p"
    by (simp_all add: detectDevicePerformance_def Let_def)
  have r: "calls ev cb (round_of q) = []"
    if "performanceManager.callbacks q = performanceManager.callbacks p" for q
    using that assms by (simp add: calls_round_of_absent)
  show ?thesis
    using assms
    by (simp add: setQualityLevel_def Let_def saveSettings_frame applyQualitySettings_frame
        applyQualitySettings_round calls_append d r)
qed

lemma pexec_absent:
  assumes "cb \<notin> set (performanceManager.callbacks p)" and "op \<noteq> OnPerformanceChange cb"
  shows "cb \<notin> set (performanceManager.callbacks (pexec beh op p))
       \<and> calls ev cb (invoked (perfEffects (pexec beh op p))) = calls ev cb (invoked (perfEffects p))"
proof (cases op)
  case (Monitor now)
  with monitor_absent [OF assms(1)] show ?thesis
    by simp
next
  case (StartMonitoring now)
  have "cb \<notin> set (performanceManager.callbacks (p\<lparr>monitoringEnabled := True\<rparr>))"
    using assms by simp
  from monitor_absent [OF this, of beh now ev] StartMonitoring assms show ?thesis
    by (simp add: startMonitoring_def)
next
  case StopMonitoring
  with assms show ?thesis
    by (simp add: stopMonitoring_def)
next
  case (SetQualityLevel hc dm conn level)
  with setQualityLevel_absent [OF assms(1)] show ?thesis
    by simp
next
  case (ResetStats now)
  with assms show ?thesis
    by (simp add: resetStats_def)
next
  case (OnPerformanceChange cb')
  with assms show ?thesis
    by (auto simp: onPerformanceChange_def set_add_def)
next
  case (Unsubscribe cb')
  with assms show ?thesis
    by (simp add: onPerformanceChange_def set_delete_def)
qed

lemma pexecs_absent:
  assumes "cb \<notin> set (performanceManager.callbacks p)" and "OnPerformanceChange cb \<notin> set ops"
  shows "cb \<notin> set (performanceManager.callbacks (pexecs beh ops p))
       \<and> calls ev cb (invoked (perfEffects (pexecs beh ops p))) = calls ev cb (invoked (perfEffects p))"
  using assms unfolding pexecs_def
proof (induction ops arbitrary: p)
  case Nil
  then show ?case by simp
next
  case (Cons op ops)
  from Cons.prems have ne: "op \<noteq> OnPerformanceChange cb" and rest: "OnPerformanceChange cb \<notin> set ops"
    by auto
  from pexec_absent [OF Cons.prems(1) ne, of beh ev]
  have 1: "cb \<notin> set (performanceManager.callbacks (pexec beh op p))"
    and 2: "calls ev cb (invoked (perfEffects (pexec beh op p))) = calls ev cb (invoked (perfEffects p))"
    by blast+
  from Cons.IH [OF 1 rest] 2 show ?case
    by simp
qed

subsection \<open>Unsubscribing\<close>

text \<open>
  C7: let \<open>unsubscribe\<close> be the function returned by a subscribe call for a callback and
  an event kind (\<open>on\<close> of the input manager, \<open>onPerformanceChange\<close> of the performance
  manager).  After it is invoked on the manager, the callback is no longer registered
  for the kind while the other subscribers of the kind, and their order, are as
  before; a publish of the kind calls exactly those others; and under every later
  sequence of calls on the manager that does not register the callback for the kind
  again, no publish calls it.  Invoking \<open>unsubscribe\<close> again, any number of times, changes
  nothing, and neither does invoking it when the callback is not registered, in
  particular when the kind has no subscribers left.
\<close>

theorem unsubscribe_removes:
  "cb \<notin> set (subscribers (snd (on ev cb s0) t) ev)
   \<and> subscribers (snd (on ev cb s0) t) ev = removeAll cb (subscribers t ev)
   \<and> (\<forall>ev'. ev' \<noteq> ev \<longrightarrow> subscribers (snd (on ev cb s0) t) ev' = subscribers t ev')
   \<and> invoked (inputEffects (triggerCallback beh ev d (snd (on ev cb s0) t))) =
       invoked (inputEffects t) @ map (\<lambda>c. (ev, c, d)) (removeAll cb (subscribers t ev))
   \<and> (\<forall>ops. On ev cb \<notin> set ops \<longrightarrow>
         cb \<notin> set (subscribers (execs beh ops (snd (on ev cb s0) t)) ev) \<and>
         calls ev cb (invoked (inputEffects (execs beh ops (snd (on ev cb s0) t)))) =
           calls ev cb (invoked (inputEffects t)))
   \<and> (\<forall>n. (snd (on ev cb s0) ^^ n) (snd (on ev cb s0) t) = snd (on ev cb s0) t)
   \<and> (cb \<notin> set (subscribers t ev) \<longrightarrow> snd (on ev cb s0) t = t)
   \<and> cb \<notin> set (performanceManager.callbacks (snd (onPerformanceChange cb p0) p))
   \<and> performanceManager.callbacks (snd (onPerformanceChange cb p0) p) =
       removeAll cb (performanceManager.callbacks p)
   \<and> invoked (perfEffects (notifyCallbacks pbeh (snd (onPerformanceChange cb p0) p))) =
       invoked (perfEffects p) @
       map (\<lambda>c. (''performance-change'', c, notification p)) (removeAll cb (performanceManager.callbacks p))
   \<and> (\<forall>ops. OnPerformanceChange cb \<notin> set ops \<longrightarrow>
         cb \<notin> set (performanceManager.callbacks (pexecs pbeh ops (snd (onPerformanceChange cb p0) p))) \<and>
         calls ''performance-change'' cb
           (invoked (perfEffects (pexecs pbeh ops (snd (onPerformanceChange cb p0) p)))) =
         calls ''performance-change'' cb (invoked (perfEffects p)))
   \<and> (\<forall>n. (snd (onPerformanceChange cb p0) ^^ n) (snd (onPerformanceChange cb p0) p) =
            snd (onPerformanceChange cb p0) p)
   \<and> (cb \<notin> set (performanceManager.callbacks p) \<longrightarrow> snd (onPerformanceChange cb p0) p = p)"
proof -
  let ?u = "snd (on ev cb s0)"
  let ?pu = "snd (onPerformanceChange cb p0)"
  have u: "?u = off ev cb"
    by (rule on_unsubscribe)
  have a1: "subscribers (?u t) ev = removeAll cb (subscribers t ev)"
    by (simp add: u subscribers_off set_delete_def)
  then have a0: "cb \<notin> set (subscribers (?u t) ev)"
    by simp
  have a2: "\<forall>ev'. ev' \<noteq> ev \<longrightarrow> subscribers (?u t) ev' = subscribers t ev'"
    by (simp add: u subscribers_off)
  have a3: "invoked (inputEffects (triggerCallback beh ev d (?u t))) =
       invoked (inputEffects t) @ map (\<lambda>c. (ev, c, d)) (removeAll cb (subscribers t ev))"
    by (simp add: triggerCallback_invoked a1) (simp add: u off_frame)
  have a4: "\<forall>ops. On ev cb \<notin> set ops \<longrightarrow>
         cb \<notin> set (subscribers (execs beh ops (?u t)) ev) \<and>
         calls ev cb (invoked (inputEffects (execs beh ops (?u t)))) =
           calls ev cb (invoked (inputEffects t))"
  proof (intro allI impI)
    fix ops assume "On ev cb \<notin> set ops"
    from execs_absent [OF a0 this, of beh]
    show "cb \<notin> set (subscribers (execs beh ops (?u t)) ev) \<and>
         calls ev cb (invoked (inputEffects (execs beh ops (?u t)))) =
           calls ev cb (invoked (inputEffects t))"
      by (simp add: u off_frame)
  qed
  have a5: "\<forall>n. (?u ^^ n) (?u t) = ?u t"
    by (simp add: u off_funpow)
  have a6: "cb \<notin> set (subscribers t ev) \<longrightarrow> ?u t = t"
    by (simp add: u off_absent)
  have b1: "performanceManager.callbacks (?pu p) = removeAll cb (performanceManager.callbacks p)"
    by (rule onPerformanceChange_unsubscribe)
  then have b0: "cb \<notin> set (performanceManager.callbacks (?pu p))"
    by simp
  have b3: "invoked (perfEffects (notifyCallbacks pbeh (?pu p))) =
       invoked (perfEffects p) @
       map (\<lambda>c. (''performance-change'', c, notification p)) (removeAll cb (performanceManager.callbacks p))"
    by (simp add: notifyCallbacks_round round_of_def onPerformanceChange_unsubscribe)
  have b4: "\<forall>ops. OnPerformanceChange cb \<notin> set ops \<longrightarrow>
         cb \<notin> set (performanceManager.callbacks (pexecs pbeh ops (?pu p))) \<and>
         calls ''performance-change'' cb (invoked (perfEffects (pexecs pbeh ops (?pu p)))) =
         calls ''performance-change'' cb (invoked (perfEffects p))"
  proof (intro allI impI)
    fix ops assume "OnPerformanceChange cb \<notin> set ops"
    from pexecs_absent [OF b0 this, of pbeh "''performance-change''"]
    show "cb \<notin> set (performanceManager.callbacks (pexecs pbeh ops (?pu p))) \<and>
         calls ''performance-change'' cb (invoked (perfEffects (pexecs pbeh ops (?pu p)))) =
         calls ''performance-change'' cb (invoked (perfEffects p))"
      by (simp add: onPerformanceChange_unsubscribe)
  qed
  have b5: "\<forall>n. (?pu ^^ n) (?pu p) = ?pu p"
    by (simp add: onPerformanceChange_unsubscribe_funpow)
  have b6: "cb \<notin> set (performanceManager.callbacks p) \<longrightarrow> ?pu p = p"
    by (simp add: onPerformanceChange_unsubscribe_absent)
  from a0 a1 a2 a3 a4 a5 a6 b0 b1 b3 b4 b5 b6 show ?thesis
    by (intro conjI)
qed

theorem unsubscribe_removes_witness:
  "subscribers two_listeners ''keydown'' = [1, 2]
   \<and> subscribers (snd (on ''keydown'' 1 init) two_listeners) ''keydown'' = [2]
   \<and> invoked (inputEffects (triggerCallback all_return ''keydown'' (KeyDownData ''a'' False False False)
         (snd (on ''keydown'' 1 init) two_listeners))) =
       [(''keydown'', 2, KeyDownData ''a'' False False False)]
   \<and> calls ''keydown'' 1 (invoked (inputEffects
         (execs all_return [KeyDown key_A, KeyUp key_A, Blur] (snd (on ''keydown'' 1 init) two_listeners)))) = []
   \<and> snd (on ''keydown'' 1 init) (snd (on ''keydown'' 1 init) two_listeners) =
       snd (on ''keydown'' 1 init) two_listeners"
proof -
  note th = unsubscribe_removes [of 1 "''keydown''" init two_listeners all_return
      "KeyDownData ''a'' False False False"]
  from th have 1: "subscribers (snd (on ''keydown'' 1 init) two_listeners) ''keydown'' = [2]"
    by (simp add: two_listeners_fields)
  from th have 2: "invoked (inputEffects (triggerCallback all_return ''keydown'' (KeyDownData ''a'' False False False)
         (snd (on ''keydown'' 1 init) two_listeners))) =
       [(''keydown'', 2, KeyDownData ''a'' False False False)]"
    by (simp add: two_listeners_fields)
  have "On ''keydown'' 1 \<notin> set [KeyDown key_A, KeyUp key_A, Blur]"
    by simp
  with th have "calls ''keydown'' 1 (invoked (inputEffects
         (execs all_return [KeyDown key_A, KeyUp key_A, Blur] (snd (on ''keydown'' 1 init) two_listeners)))) =
       calls ''keydown'' 1 (invoked (inputEffects two_listeners))"
    by blast
  then have 3: "calls ''keydown'' 1 (invoked (inputEffects
         (execs all_return [KeyDown key_A, KeyUp key_A, Blur] (snd (on ''keydown'' 1 init) two_listeners)))) = []"
    by (simp add: two_listeners_fields calls_Nil)
  from th have "(snd (on ''keydown'' 1 init) ^^ 1) (snd (on ''keydown'' 1 init) two_listeners) =
       snd (on ''keydown'' 1 init) two_listeners"
    by blast
  then have 4: "snd (on ''keydown'' 1 init) (snd (on ''keydown'' 1 init) two_listeners) =
       snd (on ''keydown'' 1 init) two_listeners"
    by simp
  from 1 2 3 4 show ?thesis
    by (simp add: two_listeners_fields)
qed

subsection \<open>Registering a callback twice\<close>

lemma wellformed_subscribers: "wellformed s \<Longrightarrow> distinct (subscribers s ev)"
proof (cases "map_get (inputManager.callbacks s) ev")
  case None
  then show ?thesis by (simp add: subscribers_def)
next
  case (Some cbs)
  assume "wellformed s"
  moreover from Some have "(ev, cbs) \<in> set (inputManager.callbacks s)"
    by (simp add: map_get_def map_of_SomeD)
  ultimately have "distinct (snd (ev, cbs))"
    unfolding wellformed_def list_all_iff by blast
  with Some show ?thesis by (simp add: subscribers_def)
qed

lemma list_all_map_set: "list_all P m \<Longrightarrow> P (k, v) \<Longrightarrow> list_all P (map_set k v m)"
  by (induction m) auto

lemma distinct_set_add: "distinct xs \<Longrightarrow> distinct (set_add x xs)"
  by (simp add: set_add_def)

lemma distinct_set_delete: "distinct xs \<Longrightarrow> distinct (set_delete x xs)"
  by (simp add: set_delete_def distinct_removeAll)

lemma wellformed_init: "wellformed init"
  by (simp add: wellformed_def init_def)

lemma wellformed_on: "wellformed s \<Longrightarrow> wellformed (fst (on ev cb s))"
proof -
  assume w: "wellformed s"
  then have "distinct (subscribers s ev)"
    by (rule wellformed_subscribers)
  then have d: "distinct (set_add cb (subscribers s ev))"
    by (rule distinct_set_add)
  from w have 1: "list_all (\<lambda>e. distinct (snd e)) (map_set ev [] (inputManager.callbacks s))"
    by (simp add: wellformed_def list_all_map_set)
  show ?thesis
  proof (cases "map_get (inputManager.callbacks s) ev")
    case None
    with 1 show ?thesis
      by (simp add: on_def Let_def wellformed_def map_get_map_set set_add_def list_all_map_set)
  next
    case (Some cbs)
    with d w show ?thesis
      by (simp add: on_def Let_def wellformed_def subscribers_def list_all_map_set)
  qed
qed

lemma wellformed_off: "wellformed s \<Longrightarrow> wellformed (off ev cb s)"
proof -
  assume w: "wellformed s"
  then have "distinct (set_delete cb (subscribers s ev))"
    by (simp add: wellformed_subscribers distinct_set_delete)
  with w show ?thesis
    by (cases "map_get (inputManager.callbacks s) ev")
      (simp_all add: off_def wellformed_def subscribers_def list_all_map_set)
qed

lemma wellformed_triggerCallback: "wellformed (triggerCallback beh ev d s) = wellformed s"
  by (simp add: wellformed_def triggerCallback_frame)

lemma wellformed_touchend_one: "wellformed (touchend_one beh now ts t s) = wellformed s"
  by (simp add: touchend_one_def Let_def wellformed_def triggerCallback_frame split: option.split)

lemma wellformed_touchend_fold: "wellformed (fold (touchend_one beh now ts) us s) = wellformed s"
  by (induction us arbitrary: s) (simp_all add: wellformed_touchend_one)

lemma wellformed_exec: "wellformed s \<Longrightarrow> wellformed (exec beh op s)"
proof (cases op)
  case (On ev cb)
  assume "wellformed s"
  with On show ?thesis by (simp add: wellformed_on)
next
  case (Off ev cb)
  assume "wellformed s"
  with Off show ?thesis by (simp add: wellformed_off)
next
  case (TouchEnd now ts)
  assume "wellformed s"
  with TouchEnd show ?thesis by (simp add: touchend_def wellformed_touchend_fold)
qed (simp_all add: keydown_def keyup_def blur_def touchstart_def touchmove_def Let_def
    setGestureThresholds_def enable_def disable_def reset_def dispose_def
    wellformed_triggerCallback, simp_all add: wellformed_def)

lemma wellformed_execs: "wellformed (execs beh ops init)"
proof -
  have "wellformed s \<Longrightarrow> wellformed (fold (exec beh) ops s)" for s
    by (induction ops arbitrary: s) (simp_all add: wellformed_exec)
  then show ?thesis
    by (simp add: execs_def wellformed_init)
qed

lemma filter_member_distinct:
  "distinct cbs \<Longrightarrow> cb \<in> set cbs \<Longrightarrow> filter (\<lambda>c. c = cb) cbs = [cb]"
  by (induction cbs) (auto simp: filter_absent)

lemma calls_triggerCallback_member:
  assumes "distinct (subscribers s ev)" "cb \<in> set (subscribers s ev)"
  shows "calls ev cb (invoked (inputEffects (triggerCallback beh ev d s))) =
     calls ev cb (invoked (inputEffects s)) @ [(ev, cb, d)]"
  using assms by (simp add: calls_triggerCallback filter_member_distinct)

lemma notifyCallbacks_member:
  assumes "distinct (performanceManager.callbacks p)" "cb \<in> set (performanceManager.callbacks p)"
  shows "calls ''performance-change'' cb (invoked (perfEffects (notifyCallbacks beh p))) =
     calls ''performance-change'' cb (invoked (perfEffects p)) @
     [(''performance-change'', cb, notification p)]"
  using assms
  by (simp add: notifyCallbacks_round round_of_def calls_append calls_round filter_member_distinct)

lemma onPerformanceChange_frame:
  "performanceManager.callbacks (fst (onPerformanceChange cb p)) =
     set_add cb (performanceManager.callbacks p)"
  "perfEffects (fst (onPerformanceChange cb p)) = perfEffects p"
  "notification (fst (onPerformanceChange cb p)) = notification p"
  by (simp_all add: onPerformanceChange_def notification_def getQualitySettings_def)

lemma set_set_add: "set (set_add x xs) = insert x (set xs)"
  by (auto simp: set_add_def)

text \<open>
  C10: registering the same callback a second time for the same event kind changes
  nothing: the state after two registrations is the state after one.  On a manager
  whose sets hold each callback once (as every manager reached from a new one does), a
  publish of the kind then calls the callback exactly once.  The two unsubscribe
  functions returned act alike, and one call of either removes the callback
  entirely: it is no longer registered, and no publish calls it under any later
  sequence of calls on the manager that does not register it again.
\<close>

theorem duplicate_subscription:
  "fst (on ev cb (fst (on ev cb s))) = fst (on ev cb s)
   \<and> (wellformed s \<longrightarrow>
        wellformed (fst (on ev cb (fst (on ev cb s)))) \<and>
        calls ev cb (invoked (inputEffects (triggerCallback beh ev d (fst (on ev cb (fst (on ev cb s))))))) =
          calls ev cb (invoked (inputEffects s)) @ [(ev, cb, d)])
   \<and> snd (on ev cb s) (fst (on ev cb (fst (on ev cb s)))) =
       snd (on ev cb (fst (on ev cb s))) (fst (on ev cb (fst (on ev cb s))))
   \<and> cb \<notin> set (subscribers (snd (on ev cb s) (fst (on ev cb (fst (on ev cb s))))) ev)
   \<and> (\<forall>ops. On ev cb \<notin> set ops \<longrightarrow>
         calls ev cb (invoked (inputEffects
           (execs beh ops (snd (on ev cb s) (fst (on ev cb (fst (on ev cb s)))))))) =
         calls ev cb (invoked (inputEffects s)))
   \<and> fst (onPerformanceChange cb (fst (onPerformanceChange cb p))) = fst (onPerformanceChange cb p)
   \<and> (distinct (performanceManager.callbacks p) \<longrightarrow>
        distinct (performanceManager.callbacks (fst (onPerformanceChange cb (fst (onPerformanceChange cb p))))) \<and>
        calls ''performance-change'' cb (invoked (perfEffects
          (notifyCallbacks pbeh (fst (onPerformanceChange cb (fst (onPerformanceChange cb p))))))) =
          calls ''performance-change'' cb (invoked (perfEffects p)) @
          [(''performance-change'', cb, notification p)])
   \<and> snd (onPerformanceChange cb p) (fst (onPerformanceChange cb (fst (onPerformanceChange cb p)))) =
       snd (onPerformanceChange cb (fst (onPerformanceChange cb p)))
         (fst (onPerformanceChange cb (fst (onPerformanceChange cb p))))
   \<and> cb \<notin> set (performanceManager.callbacks
         (snd (onPerformanceChange cb p) (fst (onPerformanceChange cb (fst (onPerformanceChange cb p))))))
   \<and> (\<forall>ops. OnPerformanceChange cb \<notin> set ops \<longrightarrow>
         calls ''performance-change'' cb (invoked (perfEffects
           (pexecs pbeh ops (snd (onPerformanceChange cb p)
              (fst (onPerformanceChange cb (fst (onPerformanceChange cb p)))))))) =
         calls ''performance-change'' cb (invoked (perfEffects p)))"
proof -
  let ?s1 = "fst (on ev cb s)"
  let ?p1 = "fst (onPerformanceChange cb p)"
  have s2: "fst (on ev cb ?s1) = ?s1"
    by (rule on_twice)
  have p2: "fst (onPerformanceChange cb ?p1) = ?p1"
    by (rule onPerformanceChange_twice)
  have mem: "cb \<in> set (subscribers ?s1 ev)"
    by (simp add: subscribers_on set_set_add)
  have a1: "wellformed s \<longrightarrow>
        wellformed ?s1 \<and>
        calls ev cb (invoked (inputEffects (triggerCallback beh ev d ?s1))) =
          calls ev cb (invoked (inputEffects s)) @ [(ev, cb, d)]"
  proof
    assume "wellformed s"
    then have w: "wellformed ?s1"
      by (rule wellformed_on)
    then have "distinct (subscribers ?s1 ev)"
      by (rule wellformed_subscribers)
    from calls_triggerCallback_member [OF this mem, of beh d] w
    show "wellformed ?s1 \<and>
        calls ev cb (invoked (inputEffects (triggerCallback beh ev d ?s1))) =
          calls ev cb (invoked (inputEffects s)) @ [(ev, cb, d)]"
      by (simp add: on_frame)
  qed
  have a2: "snd (on ev cb s) ?s1 = snd (on ev cb ?s1) ?s1"
    by (simp add: on_unsubscribe)
  have a3: "cb \<notin> set (subscribers (snd (on ev cb s) ?s1) ev)"
    by (simp add: on_unsubscribe subscribers_off set_delete_def)
  have a4: "\<forall>ops. On ev cb \<notin> set ops \<longrightarrow>
         calls ev cb (invoked (inputEffects (execs beh ops (snd (on ev cb s) ?s1)))) =
         calls ev cb (invoked (inputEffects s))"
  proof (intro allI impI)
    fix ops assume "On ev cb \<notin> set ops"
    from execs_absent [OF a3 this, of beh]
    show "calls ev cb (invoked (inputEffects (execs beh ops (snd (on ev cb s) ?s1)))) =
         calls ev cb (invoked (inputEffects s))"
      by (simp add: on_unsubscribe off_frame on_frame)
  qed
  have pmem: "cb \<in> set (performanceManager.callbacks ?p1)"
    by (simp add: onPerformanceChange_frame set_set_add)
  have b1: "distinct (performanceManager.callbacks p) \<longrightarrow>
        distinct (performanceManager.callbacks ?p1) \<and>
        calls ''performance-change'' cb (invoked (perfEffects (notifyCallbacks pbeh ?p1))) =
          calls ''performance-change'' cb (invoked (perfEffects p)) @
          [(''performance-change'', cb, notification p)]"
  proof
    assume "distinct (performanceManager.callbacks p)"
    then have d: "distinct (performanceManager.callbacks ?p1)"
      by (simp add: onPerformanceChange_frame distinct_set_add)
    from notifyCallbacks_member [OF d pmem, of pbeh] d
    show "distinct (performanceManager.callbacks ?p1) \<and>
        calls ''performance-change'' cb (invoked (perfEffects (notifyCallbacks pbeh ?p1))) =
          calls ''performance-change'' cb (invoked (perfEffects p)) @
          [(''performance-change'', cb, notification p)]"
      by (simp add: onPerformanceChange_frame)
  qed
  have b2: "snd (onPerformanceChange cb p) ?p1 = snd (onPerformanceChange cb ?p1) ?p1"
    by (simp add: onPerformanceChange_def)
  have b3: "cb \<notin> set (performanceManager.callbacks (snd (onPerformanceChange cb p) ?p1))"
    by (simp add: onPerformanceChange_unsubscribe)
  have b4: "\<forall>ops. OnPerformanceChange cb \<notin> set ops \<longrightarrow>
         calls ''performance-change'' cb (invoked (perfEffects
           (pexecs pbeh ops (snd (onPerformanceChange cb p) ?p1)))) =
         calls ''performance-change'' cb (invoked (perfEffects p))"
  proof (intro allI impI)
    fix ops assume "OnPerformanceChange cb \<notin> set ops"
    from pexecs_absent [OF b3 this, of pbeh "''performance-change''"]
    show "calls ''performance-change'' cb (invoked (perfEffects
           (pexecs pbeh ops (snd (onPerformanceChange cb p) ?p1)))) =
         calls ''performance-change'' cb (invoked (perfEffects p))"
      by (simp add: onPerformanceChange_unsubscribe onPerformanceChange_frame)
  qed
  show ?thesis
    unfolding s2 p2
    by (intro conjI refl a1 a2 a3 a4 b1 b2 b3 b4)
qed

lemma medium_device_fields:
  "performanceManager.callbacks medium_device = []"
  "invoked (perfEffects medium_device) = []"
  by (simp_all add: medium_device_def constructor_fields)

lemma subscribers_init: "subscribers init ev = []"
  by (simp add: subscribers_def init_def map_get_def)

theorem duplicate_subscription_witness:
  "wellformed init
   \<and> distinct (performanceManager.callbacks medium_device)
   \<and> subscribers (fst (on ''keydown'' 1 (fst (on ''keydown'' 1 init)))) ''keydown'' = [1]
   \<and> calls ''keydown'' 1 (invoked (inputEffects
        (triggerCallback all_return ''keydown'' (KeyDownData ''a'' False False False)
           (fst (on ''keydown'' 1 (fst (on ''keydown'' 1 init))))))) =
      [(''keydown'', 1, KeyDownData ''a'' False False False)]
   \<and> subscribers (snd (on ''keydown'' 1 init) (fst (on ''keydown'' 1 (fst (on ''keydown'' 1 init))))) ''keydown'' = []
   \<and> calls ''performance-change'' 1 (invoked (perfEffects
        (notifyCallbacks all_return (fst (onPerformanceChange 1 (fst (onPerformanceChange 1 medium_device))))))) =
      [(''performance-change'', 1, notification medium_device)]"
proof -
  note th = duplicate_subscription [of "''keydown''" 1 init all_return
      "KeyDownData ''a'' False False False" medium_device all_return]
  have w: "wellformed init"
    by (rule wellformed_init)
  have d: "distinct (performanceManager.callbacks medium_device)"
    by (simp add: medium_device_fields)
  from th w have "calls ''keydown'' 1 (invoked (inputEffects
        (triggerCallback all_return ''keydown'' (KeyDownData ''a'' False False False)
           (fst (on ''keydown'' 1 (fst (on ''keydown'' 1 init))))))) =
      calls ''keydown'' 1 (invoked (inputEffects init)) @
      [(''keydown'', 1, KeyDownData ''a'' False False False)]"
    by blast
  then have 1: "calls ''keydown'' 1 (invoked (inputEffects
        (triggerCallback all_return ''keydown'' (KeyDownData ''a'' False False False)
           (fst (on ''keydown'' 1 (fst (on ''keydown'' 1 init))))))) =
      [(''keydown'', 1, KeyDownData ''a'' False False False)]"
    by (simp add: init_def calls_Nil)
  from th d have "calls ''performance-change'' 1 (invoked (perfEffects
        (notifyCallbacks all_return (fst (onPerformanceChange 1 (fst (onPerformanceChange 1 medium_device))))))) =
      calls ''performance-change'' 1 (invoked (perfEffects medium_device)) @
      [(''performance-change'', 1, notification medium_device)]"
    by blast
  then have 2: "calls ''performance-change'' 1 (invoked (perfEffects
        (notifyCallbacks all_return (fst (onPerformanceChange 1 (fst (onPerformanceChange 1 medium_device))))))) =
      [(''performance-change'', 1, notification medium_device)]"
    by (simp add: medium_device_fields calls_Nil)
  have 3: "subscribers (fst (on ''keydown'' 1 (fst (on ''keydown'' 1 init)))) ''keydown'' = [1]"
    "subscribers (snd (on ''keydown'' 1 init) (fst (on ''keydown'' 1 (fst (on ''keydown'' 1 init))))) ''keydown'' = []"
    by (simp_all add: on_unsubscribe subscribers_on subscribers_off set_add_def set_delete_def
        subscribers_init)
  from w d 1 2 3 show ?thesis
    by (intro conjI)
qed

lemma pexec_callbacks:
  "performanceManager.callbacks (pexec beh op p) =
     (case op of OnPerformanceChange cb \<Rightarrow> set_add cb (performanceManager.callbacks p)
               | Unsubscribe cb \<Rightarrow> set_delete cb (performanceManager.callbacks p)
               | _ \<Rightarrow> performanceManager.callbacks p)"
proof (cases op)
  case (Monitor now)
  then show ?thesis
    by (cases "monitoringEnabled p") (simp_all add: monitor_fields, simp add: monitor_def)
next
  case (StartMonitoring now)
  then show ?thesis
    by (simp add: startMonitoring_def monitor_fields)
next
  case (SetQualityLevel hc dm conn level)
  then show ?thesis
    by (simp add: setQualityLevel_def Let_def saveSettings_frame applyQualitySettings_frame
        detectDevicePerformance_def)
qed (simp_all add: stopMonitoring_def resetStats_def onPerformanceChange_def)

lemma distinct_pexecs:
  "distinct (performanceManager.callbacks (pexecs beh ops (constructor now hc dm conn st)))"
proof -
  have step: "distinct (performanceManager.callbacks (pexec beh op p))"
    if "distinct (performanceManager.callbacks p)" for op p
    using that
    by (simp add: pexec_callbacks distinct_set_add distinct_set_delete split: perfOp.split)
  have "distinct (performanceManager.callbacks p) \<Longrightarrow>
      distinct (performanceManager.callbacks (fold (pexec beh) ops p))" for p
    by (induction ops arbitrary: p) (simp_all add: step)
  moreover have "performanceManager.callbacks (constructor now hc dm conn st) = []"
    by (rule constructor_fields)
  ultimately show ?thesis
    by (simp add: pexecs_def)
qed

end
